theory Spec2Isabelle
  imports Complex_Main "HOL-Library.AList"
begin

section \<open>Session and token authentication of middlewared\<close>

text \<open>
  A shallow embedding of \<^verbatim>\<open>middlewared/auth.py\<close> and \<^verbatim>\<open>middlewared/plugins/auth.py\<close>.

  Python objects that are shared and mutated (tokens, credentials, connections) live in
  explicit heaps of the state; a reference is a natural number, and a connection
  (\<^verbatim>\<open>app\<close>) is addressed by its \<^verbatim>\<open>session_id\<close>, which the RPC framework keeps unique per
  connection. The monotonic clock is a parameter \<open>now\<close> of every operation that reads it;
  its values are taken as exact reals, so the rounding of Python floats is not modelled.
\<close>

subsection \<open>Origins\<close>

text \<open>
  Modelled from the spec: the classes \<^verbatim>\<open>UnixSocketOrigin\<close> and \<^verbatim>\<open>TCPIPOrigin\<close> of
  \<^verbatim>\<open>middlewared.utils.origin\<close> are not among the sources. The spec gives the origin as
  the tagged union Unix-socket{uid} | TCP{address, port}.
\<close>

datatype origin = UnixSocketOrigin (uid: nat) | TCPIPOrigin (addr: string) (port: nat)

text \<open>\<^verbatim>\<open>isinstance(origin, type(match_origin))\<close>: the two origins are of the same class.\<close>

fun isinstance_origin :: "origin \<Rightarrow> origin \<Rightarrow> bool" where
  "isinstance_origin (UnixSocketOrigin _) (UnixSocketOrigin _) = True"
| "isinstance_origin (TCPIPOrigin _ _) (TCPIPOrigin _ _) = True"
| "isinstance_origin _ _ = False"

text \<open>
  Modelled from the spec: the method \<^verbatim>\<open>match\<close> of the origin classes, which is not among
  the sources: uid equality for a Unix-socket origin, address equality for a TCP origin.
  The first argument is the recorded constraint, the second the requesting origin.
  \<^verbatim>\<open>TokenManager.get\<close> calls it only on two origins of the same class.
\<close>

fun origin_match :: "origin \<Rightarrow> origin \<Rightarrow> bool" where
  "origin_match (UnixSocketOrigin u) (UnixSocketOrigin u') = (u = u')"
| "origin_match (TCPIPOrigin a _) (TCPIPOrigin a' _) = (a = a')"
| "origin_match _ _ = False"

subsection \<open>Credentials\<close>

type_synonym token_ref = nat
type_synonym cred_ref = nat

text \<open>
  An allowlist is a list of (method, resource) entries. The class \<^verbatim>\<open>Allowlist\<close> of
  \<^verbatim>\<open>middlewared.utils.allowlist\<close> is not among the sources: its \<^verbatim>\<open>authorize\<close> is the
  parameter \<open>A\<close> of the functions below.
\<close>

type_synonym allowlist = "(string \<times> string) list"

record user =
  username :: string
  privilege_allowlist :: allowlist
  privilege_web_shell :: bool

record api_key =
  api_key_id :: int
  api_key_name :: string
  api_key_allowlist :: allowlist

text \<open>
  The class hierarchy of \<^verbatim>\<open>middlewared/auth.py\<close> with \<^verbatim>\<open>TokenSessionManagerCredentials\<close> of
  the plugin. The user variants carry the user and the allowlist object built from the
  user's privilege in \<^verbatim>\<open>__init__\<close>; a token credential holds a reference to its token.
\<close>

datatype credentials =
    SessionManagerCredentials
  | UserSessionManagerCredentials user allowlist
  | UnixSocketSessionManagerCredentials user allowlist
  | RootTcpSocketSessionManagerCredentials
  | LoginPasswordSessionManagerCredentials user allowlist
  | ApiKeySessionManagerCredentials api_key
  | TrueNasNodeSessionManagerCredentials
  | TokenSessionManagerCredentials token_ref

datatype error = KeyError | AttributeError

text \<open>A Python result that is a boolean or \<^verbatim>\<open>None\<close>.\<close>

datatype py_value = PyNone | PyBool bool

subsection \<open>Tokens, sessions, connections and the state\<close>

record Token =
  token :: string
  ttl :: int
  attributes :: "(string \<times> string) list"
  match_origin :: "origin option"
  parent_credentials :: "cred_ref option"
  last_used_at :: real

record Session =
  credentials :: cred_ref
  app :: string
  created_at :: real

datatype callback = app_on_message | app_on_close

text \<open>
  The connection object handed in by the RPC framework, with the attributes this code
  reads and writes. \<open>response_closed\<close> records that \<^verbatim>\<open>app.response.close()\<close> was called.
\<close>

record application =
  origin :: origin
  authenticated :: bool
  authenticated_credentials :: "cred_ref option"
  callbacks :: "(string \<times> callback) list"
  response_closed :: bool

datatype event_kind = ADDED | REMOVED

text \<open>A call of an external collaborator through \<^verbatim>\<open>middleware.call\<close>.\<close>

datatype call =
    auth_authenticate string string
  | auth_twofactor_config
  | auth_twofactor_verify "string option"

text \<open>
  \<open>tokens\<close> is \<^verbatim>\<open>TokenManager.tokens\<close>; \<open>sessions\<close> is \<^verbatim>\<open>SessionManager.sessions\<close>, an
  association list in insertion order as a Python dict is; \<open>events\<close> is the log of
  \<^verbatim>\<open>middleware.send_event\<close> (channel, kind, session id) and \<open>calls\<close> the log of
  \<^verbatim>\<open>middleware.call\<close>, both oldest first.
\<close>

record state =
  tokens :: "string \<rightharpoonup> token_ref"
  sessions :: "(string \<times> Session) list"
  token_heap :: "token_ref \<Rightarrow> Token"
  cred_heap :: "cred_ref \<Rightarrow> credentials"
  apps :: "string \<Rightarrow> application"
  next_token_ref :: nat
  next_cred_ref :: nat
  events :: "(string \<times> event_kind \<times> string) list"
  calls :: "call list"

subsection \<open>Token\<close>

definition Token_init ::
  "real \<Rightarrow> string \<Rightarrow> int \<Rightarrow> (string \<times> string) list \<Rightarrow> origin option \<Rightarrow> cred_ref option \<Rightarrow> Token" where
  "Token_init now tok t attrs mo parent =
     \<lparr>token = tok, ttl = t, attributes = attrs, match_origin = mo,
      parent_credentials = parent, last_used_at = now\<rparr>"

definition Token_is_valid :: "real \<Rightarrow> Token \<Rightarrow> bool" where
  "Token_is_valid now t = (now < last_used_at t + real_of_int (ttl t))"

definition Token_notify_used :: "real \<Rightarrow> Token \<Rightarrow> Token" where
  "Token_notify_used now t = t\<lparr>last_used_at := now\<rparr>"

subsection \<open>TokenManager\<close>

text \<open>
  \<^verbatim>\<open>create\<close>: \<open>new_token\<close> is the string drawn by \<^verbatim>\<open>generate_token(48, url_safe=True)\<close>;
  \<^verbatim>\<open>attributes or {}\<close> turns \<^verbatim>\<open>None\<close> into the empty dict. The new Token object gets a
  fresh reference.
\<close>

definition TokenManager_create ::
  "real \<Rightarrow> string \<Rightarrow> int \<Rightarrow> (string \<times> string) list option \<Rightarrow> origin option \<Rightarrow>
   cred_ref option \<Rightarrow> state \<Rightarrow> token_ref \<times> state" where
  "TokenManager_create now new_token t attrs mo parent st =
     (let attrs' = (case attrs of None \<Rightarrow> [] | Some a \<Rightarrow> a);
          r = next_token_ref st
      in (r, st\<lparr>tokens := (tokens st)(new_token \<mapsto> r),
                token_heap := (token_heap st)(r := Token_init now new_token t attrs' mo parent),
                next_token_ref := Suc r\<rparr>))"

text \<open>
  \<^verbatim>\<open>get\<close>: \<^verbatim>\<open>self.tokens.pop(token.token)\<close> has no default, so it raises \<^verbatim>\<open>KeyError\<close> when
  the identifier stored in the Token object is not a key of the dict.
\<close>

definition TokenManager_get ::
  "real \<Rightarrow> string \<Rightarrow> origin \<Rightarrow> state \<Rightarrow> error + (token_ref option \<times> state)" where
  "TokenManager_get now tok org st =
     (case tokens st tok of
        None \<Rightarrow> Inr (None, st)
      | Some r \<Rightarrow>
          if \<not> Token_is_valid now (token_heap st r) then
            (case tokens st (token (token_heap st r)) of
               None \<Rightarrow> Inl KeyError
             | Some _ \<Rightarrow> Inr (None, st\<lparr>tokens := (tokens st)(token (token_heap st r) := None)\<rparr>))
          else
            (case match_origin (token_heap st r) of
               Some mo \<Rightarrow>
                 if \<not> isinstance_origin org mo then Inr (None, st)
                 else if \<not> origin_match mo org then Inr (None, st)
                 else Inr (Some r, st)
             | None \<Rightarrow> Inr (Some r, st)))"

text \<open>
  \<^verbatim>\<open>destroy\<close> is \<^verbatim>\<open>self.tokens.pop(token, None)\<close>. Every key of the dict is a string, so
  the call with a Token object as the key, which is what
  \<^verbatim>\<open>TokenSessionManagerCredentials.logout\<close> passes, finds nothing and removes nothing.
\<close>

datatype dict_key = StrKey string | TokenKey token_ref

fun TokenManager_destroy :: "dict_key \<Rightarrow> state \<Rightarrow> state" where
  "TokenManager_destroy (StrKey k) st = st\<lparr>tokens := (tokens st)(k := None)\<rparr>"
| "TokenManager_destroy (TokenKey _) st = st"

text \<open>
  The invariant of the token registry: every key maps to the Token object that carries
  that key as its identifier.
\<close>

definition tokens_wf :: "state \<Rightarrow> bool" where
  "tokens_wf st = (\<forall>k r. tokens st k = Some r \<longrightarrow> token (token_heap st r) = k \<and> r < next_token_ref st)"

subsection \<open>Methods of the credentials\<close>

text \<open>
  A method call on a credentials object dispatches on the class of the object found at the
  reference. \<^verbatim>\<open>is_valid\<close> and \<^verbatim>\<open>notify_used\<close> are overridden by the token credential only.
\<close>

definition credentials_is_valid :: "real \<Rightarrow> state \<Rightarrow> cred_ref \<Rightarrow> bool" where
  "credentials_is_valid now st c =
     (case cred_heap st c of
        TokenSessionManagerCredentials r \<Rightarrow> Token_is_valid now (token_heap st r)
      | _ \<Rightarrow> True)"

definition credentials_notify_used :: "real \<Rightarrow> state \<Rightarrow> cred_ref \<Rightarrow> state" where
  "credentials_notify_used now st c =
     (case cred_heap st c of
        TokenSessionManagerCredentials r \<Rightarrow>
          st\<lparr>token_heap := (token_heap st)(r := Token_notify_used now (token_heap st r))\<rparr>
      | _ \<Rightarrow> st)"

text \<open>
  \<^verbatim>\<open>logout\<close> of a token credential is \<^verbatim>\<open>self.token_manager.destroy(self.token)\<close>, with the
  Token object as the key.
\<close>

definition credentials_logout :: "state \<Rightarrow> cred_ref \<Rightarrow> state" where
  "credentials_logout st c =
     (case cred_heap st c of
        TokenSessionManagerCredentials r \<Rightarrow> TokenManager_destroy (TokenKey r) st
      | _ \<Rightarrow> st)"

text \<open>
  \<^verbatim>\<open>authorize\<close>: the user variants ask their allowlist, the API key credential asks the
  key object (whose class is not among the sources: it is taken to ask the allowlist of
  the key, as the spec says), the token
  credential the parent credentials of its token (\<^verbatim>\<open>AttributeError\<close> when the parent is
  \<^verbatim>\<open>None\<close>), every other class answers \<^verbatim>\<open>True\<close>. The recursion follows the parent chain
  through the heaps; the result is \<open>None\<close> when it never returns.
\<close>

partial_function (option) authorize ::
  "(allowlist \<Rightarrow> string \<Rightarrow> string \<Rightarrow> bool) \<Rightarrow> state \<Rightarrow> string \<Rightarrow> string \<Rightarrow> cred_ref \<Rightarrow>
   (error + bool) option" where
  "authorize A st method resource c =
     (case cred_heap st c of
        SessionManagerCredentials \<Rightarrow> Some (Inr True)
      | UserSessionManagerCredentials u al \<Rightarrow> Some (Inr (A al method resource))
      | UnixSocketSessionManagerCredentials u al \<Rightarrow> Some (Inr (A al method resource))
      | RootTcpSocketSessionManagerCredentials \<Rightarrow> Some (Inr True)
      | LoginPasswordSessionManagerCredentials u al \<Rightarrow> Some (Inr (A al method resource))
      | ApiKeySessionManagerCredentials k \<Rightarrow> Some (Inr (A (api_key_allowlist k) method resource))
      | TrueNasNodeSessionManagerCredentials \<Rightarrow> Some (Inr True)
      | TokenSessionManagerCredentials r \<Rightarrow>
          (case parent_credentials (token_heap st r) of
             None \<Rightarrow> Some (Inl AttributeError)
           | Some p \<Rightarrow> authorize A st method resource p))"

text \<open>
  \<^verbatim>\<open>Token.root_credentials\<close>: the \<^verbatim>\<open>while True\<close> loop over the variable \<^verbatim>\<open>credentials\<close>.
  The outer \<open>None\<close> is a loop that never returns; \<open>Some None\<close> is the return of \<^verbatim>\<open>None\<close>.
\<close>

partial_function (option) root_credentials_loop ::
  "state \<Rightarrow> cred_ref option \<Rightarrow> cred_ref option option" where
  "root_credentials_loop st creds =
     (case creds of
        Some c \<Rightarrow>
          (case cred_heap st c of
             TokenSessionManagerCredentials r \<Rightarrow>
               root_credentials_loop st (parent_credentials (token_heap st r))
           | _ \<Rightarrow> Some (Some c))
      | None \<Rightarrow> Some None)"

definition root_credentials :: "state \<Rightarrow> Token \<Rightarrow> cred_ref option option" where
  "root_credentials st t = root_credentials_loop st (parent_credentials t)"

text \<open>
  The parent chain that starts at \<open>creds\<close>: it passes through the token credentials of the
  tokens \<open>rs\<close>, in this order, and reaches \<open>final\<close>, which is \<^verbatim>\<open>None\<close> or a credentials
  object that is not token-derived.
\<close>

fun parent_chain :: "state \<Rightarrow> cred_ref option \<Rightarrow> token_ref list \<Rightarrow> cred_ref option \<Rightarrow> bool" where
  "parent_chain st creds [] final =
     (creds = final \<and>
      (case final of
         None \<Rightarrow> True
       | Some c \<Rightarrow> (case cred_heap st c of TokenSessionManagerCredentials _ \<Rightarrow> False | _ \<Rightarrow> True)))"
| "parent_chain st creds (r # rs) final =
     (case creds of
        None \<Rightarrow> False
      | Some c \<Rightarrow>
          cred_heap st c = TokenSessionManagerCredentials r \<and>
          parent_chain st (parent_credentials (token_heap st r)) rs final)"

text \<open>
  \<^verbatim>\<open>dump_credentials\<close>, the label: the class name without \<^verbatim>\<open>SessionManagerCredentials\<close>,
  an underscore before each capital, the leading underscore stripped, in upper case.
\<close>

fun credentials_label :: "credentials \<Rightarrow> string" where
  "credentials_label SessionManagerCredentials = []"
| "credentials_label (UserSessionManagerCredentials _ _) = ''USER''"
| "credentials_label (UnixSocketSessionManagerCredentials _ _) = ''UNIX_SOCKET''"
| "credentials_label RootTcpSocketSessionManagerCredentials = ''ROOT_TCP_SOCKET''"
| "credentials_label (LoginPasswordSessionManagerCredentials _ _) = ''LOGIN_PASSWORD''"
| "credentials_label (ApiKeySessionManagerCredentials _) = ''API_KEY''"
| "credentials_label TrueNasNodeSessionManagerCredentials = ''TRUE_NAS_NODE''"
| "credentials_label (TokenSessionManagerCredentials _) = ''TOKEN''"

subsection \<open>SessionManager\<close>

text \<open>
  \<^verbatim>\<open>is_internal_session\<close> reads the origin and the \<^verbatim>\<open>authenticated_credentials\<close> of the
  session's connection.
\<close>

definition is_internal_session :: "state \<Rightarrow> Session \<Rightarrow> bool" where
  "is_internal_session st session =
     (if (case origin (apps st (app session)) of
            UnixSocketOrigin u \<Rightarrow> u = 0
          | TCPIPOrigin _ _ \<Rightarrow> False) then True
      else if (case authenticated_credentials (apps st (app session)) of
                 None \<Rightarrow> False
               | Some c \<Rightarrow>
                   (case cred_heap st c of
                      RootTcpSocketSessionManagerCredentials \<Rightarrow> True
                    | TrueNasNodeSessionManagerCredentials \<Rightarrow> True
                    | _ \<Rightarrow> False)) then True
      else False)"

definition send_event :: "string \<Rightarrow> event_kind \<Rightarrow> string \<Rightarrow> state \<Rightarrow> state" where
  "send_event name kind sid st = st\<lparr>events := events st @ [(name, kind, sid)]\<rparr>"

definition register_callback :: "string \<Rightarrow> callback \<Rightarrow> application \<Rightarrow> application" where
  "register_callback name cb a = a\<lparr>callbacks := callbacks a @ [(name, cb)]\<rparr>"

text \<open>
  \<^verbatim>\<open>login\<close>: \<open>a\<close> is the connection (its session id), \<open>c\<close> the credentials object.
  \<^verbatim>\<open>self.sessions[app.session_id]\<close> raises \<^verbatim>\<open>KeyError\<close> when the connection is flagged
  authenticated and has no session. The event carries the session id; the other fields of
  its payload (\<^verbatim>\<open>session.dump()\<close>) are left out.
\<close>

definition SessionManager_login :: "real \<Rightarrow> string \<Rightarrow> cred_ref \<Rightarrow> state \<Rightarrow> error + state" where
  "SessionManager_login now a c st =
     (if authenticated (apps st a) then
        (case map_of (sessions st) a of
           None \<Rightarrow> Inl KeyError
         | Some s \<Rightarrow>
             Inr (st\<lparr>sessions := AList.update a (s\<lparr>credentials := c\<rparr>) (sessions st),
                     apps := (apps st)(a := (apps st a)\<lparr>authenticated_credentials := Some c\<rparr>)\<rparr>))
      else
        (let session = \<lparr>credentials = c, app = a, created_at = now\<rparr>;
             st1 = st\<lparr>sessions := AList.update a session (sessions st)\<rparr>;
             st2 = st1\<lparr>apps := (apps st1)(a :=
                     register_callback ''on_close'' app_on_close
                       (register_callback ''on_message'' app_on_message
                         ((apps st1 a)\<lparr>authenticated := True,
                                       authenticated_credentials := Some c\<rparr>)))\<rparr>
         in Inr (if \<not> is_internal_session st2 session
                 then send_event ''auth.sessions'' ADDED a st2 else st2)))"

definition SessionManager_logout :: "string \<Rightarrow> state \<Rightarrow> state" where
  "SessionManager_logout a st =
     (let st1 = st\<lparr>sessions := AList.delete a (sessions st)\<rparr>;
          st2 = (case map_of (sessions st) a of
                   None \<Rightarrow> st1
                 | Some session \<Rightarrow>
                     (let st' = credentials_logout st1 (credentials session)
                      in if \<not> is_internal_session st' session
                         then send_event ''auth.sessions'' REMOVED a st' else st'))
      in st2\<lparr>apps := (apps st2)(a := (apps st2 a)\<lparr>authenticated := False\<rparr>)\<rparr>)"

definition SessionManager_app_on_message :: "real \<Rightarrow> string \<Rightarrow> state \<Rightarrow> state" where
  "SessionManager_app_on_message now a st =
     (case map_of (sessions st) a of
        None \<Rightarrow> st\<lparr>apps := (apps st)(a := (apps st a)\<lparr>authenticated := False\<rparr>)\<rparr>
      | Some session \<Rightarrow>
          if \<not> credentials_is_valid now st (credentials session) then SessionManager_logout a st
          else credentials_notify_used now st (credentials session))"

definition SessionManager_app_on_close :: "string \<Rightarrow> state \<Rightarrow> state" where
  "SessionManager_app_on_close a st = SessionManager_logout a st"

text \<open>
  The operations of the session manager, and a run of a list of them. A run stops at the
  first exception.
\<close>

datatype session_op =
    Login real string cred_ref
  | Logout string
  | OnMessage real string
  | OnClose string

fun step :: "session_op \<Rightarrow> state \<Rightarrow> error + state" where
  "step (Login now a c) st = SessionManager_login now a c st"
| "step (Logout a) st = Inr (SessionManager_logout a st)"
| "step (OnMessage now a) st = Inr (SessionManager_app_on_message now a st)"
| "step (OnClose a) st = Inr (SessionManager_app_on_close a st)"

fun run :: "session_op list \<Rightarrow> state \<Rightarrow> error + state" where
  "run [] st = Inr st"
| "run (x # xs) st = (case step x st of Inl e \<Rightarrow> Inl e | Inr st' \<Rightarrow> run xs st')"

text \<open>
  The state at start-up: \<^verbatim>\<open>SessionManager()\<close> has no session and no connection is
  authenticated.
\<close>

definition initial :: "state \<Rightarrow> bool" where
  "initial st = (sessions st = [] \<and> events st = [] \<and> (\<forall>a. \<not> authenticated (apps st a)))"

text \<open>
  What the session manager keeps true: a session is stored under the id of its own
  connection, no id is stored twice, a connection is flagged authenticated exactly when it
  has a session, and then the credentials of the session are those of the connection.
\<close>

definition sessions_wf :: "state \<Rightarrow> bool" where
  "sessions_wf st =
     (distinct (map fst (sessions st)) \<and>
      (\<forall>a. authenticated (apps st a) = (map_of (sessions st) a \<noteq> None)) \<and>
      (\<forall>a s. map_of (sessions st) a = Some s \<longrightarrow>
          app s = a \<and> authenticated_credentials (apps st a) = Some (credentials s)))"

subsection \<open>AuthService\<close>

text \<open>
  An entry of the session listing: \<^verbatim>\<open>id\<close>, \<^verbatim>\<open>current\<close>, \<^verbatim>\<open>internal\<close> and, from
  \<^verbatim>\<open>session.dump()\<close>, the origin, the credentials label and the creation time (the monotonic
  one: the conversion to wall-clock time and \<^verbatim>\<open>credentials_data\<close> are left out).
\<close>

record session_entry =
  entry_id :: string
  entry_current :: bool
  entry_internal :: bool
  entry_origin :: origin
  entry_credentials :: string
  entry_created_at :: real

text \<open>
  \<^verbatim>\<open>sessions\<close>: \<^verbatim>\<open>sorted\<close> is stable, as \<open>sort_key\<close> is. \<^verbatim>\<open>filter_list\<close> is not among the
  sources: its \<^verbatim>\<open>filters\<close> argument is taken as a predicate on the entries.
\<close>

definition AuthService_sessions :: "string \<Rightarrow> (session_entry \<Rightarrow> bool) \<Rightarrow> state \<Rightarrow> session_entry list" where
  "AuthService_sessions a filters st =
     filter filters
       (map (\<lambda>(session_id, session).
               \<lparr>entry_id = session_id,
                entry_current = (a = session_id),
                entry_internal = is_internal_session st session,
                entry_origin = origin (apps st (app session)),
                entry_credentials = credentials_label (cred_heap st (credentials session)),
                entry_created_at = created_at session\<rparr>)
            (sort_key (\<lambda>t. created_at (snd t)) (sessions st)))"

text \<open>The filter \<^verbatim>\<open>[["internal", "=", false]]\<close>, which excludes the internal sessions.\<close>

definition exclude_internal :: "session_entry \<Rightarrow> bool" where
  "exclude_internal e = (entry_internal e = False)"

text \<open>
  \<^verbatim>\<open>terminate_session\<close>: after \<^verbatim>\<open>await session.app.response.close()\<close> the function ends
  without a \<^verbatim>\<open>return\<close>.
\<close>

definition AuthService_terminate_session :: "string \<Rightarrow> state \<Rightarrow> py_value \<times> state" where
  "AuthService_terminate_session sid st =
     (case map_of (sessions st) sid of
        None \<Rightarrow> (PyBool False, st)
      | Some session \<Rightarrow>
          (PyNone, st\<lparr>apps := (apps st)(app session :=
                        (apps st (app session))\<lparr>response_closed := True\<rparr>)\<rparr>))"

text \<open>
  \<^verbatim>\<open>get_token\<close>: the dict \<^verbatim>\<open>{'attributes': ...}\<close>, or \<^verbatim>\<open>None\<close> on \<^verbatim>\<open>KeyError\<close>.
\<close>

definition AuthService_get_token :: "string \<Rightarrow> state \<Rightarrow> (string \<times> (string \<times> string) list) list option" where
  "AuthService_get_token token_id st =
     (case tokens st token_id of
        None \<Rightarrow> None
      | Some r \<Rightarrow> Some [(''attributes'', attributes (token_heap st r))])"

text \<open>A new credentials object gets a fresh reference.\<close>

definition new_credentials :: "credentials \<Rightarrow> state \<Rightarrow> cred_ref \<times> state" where
  "new_credentials obj st =
     (next_cred_ref st,
      st\<lparr>cred_heap := (cred_heap st)(next_cred_ref st := obj), next_cred_ref := Suc (next_cred_ref st)\<rparr>)"

definition middleware_call :: "call \<Rightarrow> state \<Rightarrow> state" where
  "middleware_call x st = st\<lparr>calls := calls st @ [x]\<rparr>"

text \<open>
  The external collaborators that \<^verbatim>\<open>login\<close> calls: \<^verbatim>\<open>auth.authenticate\<close>,
  \<^verbatim>\<open>auth.twofactor.config\<close> (its \<^verbatim>\<open>enabled\<close> field) and \<^verbatim>\<open>auth.twofactor.verify\<close>.
\<close>

record middleware =
  authenticate :: "string \<Rightarrow> string \<Rightarrow> user option"
  twofactor_enabled :: bool
  twofactor_verify :: "string option \<Rightarrow> bool"

definition AuthService_login ::
  "middleware \<Rightarrow> real \<Rightarrow> string \<Rightarrow> string \<Rightarrow> string \<Rightarrow> string option \<Rightarrow> state \<Rightarrow>
   error + (bool \<times> state)" where
  "AuthService_login mw now a uname password otp_token st =
     (let user0 = authenticate mw uname password;
          st1 = middleware_call (auth_authenticate uname password) st;
          st2 = middleware_call auth_twofactor_config st1;
          (user1, st3) =
            (if twofactor_enabled mw then
               (if \<not> twofactor_verify mw otp_token then None else user0,
                middleware_call (auth_twofactor_verify otp_token) st2)
             else (user0, st2))
      in case user1 of
           Some u \<Rightarrow>
             (let (c, st4) = new_credentials
                    (LoginPasswordSessionManagerCredentials u (privilege_allowlist u)) st3
              in case SessionManager_login now a c st4 of
                   Inl e \<Rightarrow> Inl e
                 | Inr st5 \<Rightarrow> Inr (True, st5))
         | None \<Rightarrow> Inr (False, st3))"

text \<open>The calls that \<^verbatim>\<open>login\<close> makes, in their order.\<close>

definition calls_of_login :: "middleware \<Rightarrow> string \<Rightarrow> string \<Rightarrow> string option \<Rightarrow> call list" where
  "calls_of_login mw uname password otp_token =
     [auth_authenticate uname password, auth_twofactor_config] @
     (if twofactor_enabled mw then [auth_twofactor_verify otp_token] else [])"

definition AuthService_login_with_token ::
  "real \<Rightarrow> string \<Rightarrow> string \<Rightarrow> state \<Rightarrow> error + (py_value \<times> state)" where
  "AuthService_login_with_token now a tok st =
     (case TokenManager_get now tok (origin (apps st a)) st of
        Inl e \<Rightarrow> Inl e
      | Inr (None, st1) \<Rightarrow> Inr (PyBool False, st1)
      | Inr (Some r, st1) \<Rightarrow>
          if attributes (token_heap st1 r) \<noteq> [] then Inr (PyNone, st1)
          else
            (let (c, st2) = new_credentials (TokenSessionManagerCredentials r) st1
             in case SessionManager_login now a c st2 of
                  Inl e \<Rightarrow> Inl e
                | Inr st3 \<Rightarrow> Inr (PyBool True, st3)))"

subsection \<open>Concrete states\<close>

text \<open>
  The state at start-up, with every connection coming from the TCP address 10.0.0.1, and
  the state after a token with a time-to-live of one second, bound to the Unix-socket
  origin of uid 1000, was created at time 0.
\<close>

definition state0 :: state where
  "state0 =
     \<lparr>tokens = Map.empty, sessions = [],
      token_heap = (\<lambda>_. Token_init 0 [] 0 [] None None),
      cred_heap = (\<lambda>_. SessionManagerCredentials),
      apps = (\<lambda>_. \<lparr>origin = TCPIPOrigin ''10.0.0.1'' 5000, authenticated = False,
                    authenticated_credentials = None, callbacks = [], response_closed = False\<rparr>),
      next_token_ref = 0, next_cred_ref = 0, events = [], calls = []\<rparr>"

definition state_tok :: state where
  "state_tok =
     snd (TokenManager_create 0 ''tok'' 1 None (Some (UnixSocketOrigin 1000)) None state0)"

text \<open>
  A password login of the user \<open>user0\<close> (credentials 0), a token issued to it (token 0,
  credentials 1) and a token issued to the holder of that token (token 1, credentials 2).
\<close>

definition user0 :: user where
  "user0 = \<lparr>username = ''admin'', privilege_allowlist = [(''CALL'', ''pool.query'')],
            privilege_web_shell = True\<rparr>"

definition state_chain :: state where
  "state_chain =
     state0\<lparr>cred_heap := (\<lambda>_. SessionManagerCredentials)
              (0 := LoginPasswordSessionManagerCredentials user0 (privilege_allowlist user0),
               1 := TokenSessionManagerCredentials 0,
               2 := TokenSessionManagerCredentials 1),
            token_heap := (\<lambda>_. Token_init 0 [] 0 [] None None)
              (0 := Token_init 0 ''tok0'' 600 [] None (Some 0),
               1 := Token_init 0 ''tok1'' 600 [] None (Some 1)),
            tokens := [''tok0'' \<mapsto> 0, ''tok1'' \<mapsto> 1],
            next_token_ref := 2, next_cred_ref := 3\<rparr>"

text \<open>
  A heap in which the parent of token 0 is a token credential of token 0 itself.
\<close>

definition state_cycle :: state where
  "state_cycle =
     state0\<lparr>cred_heap := (\<lambda>_. TokenSessionManagerCredentials 0),
            token_heap := (\<lambda>_. Token_init 0 ''tok'' 600 [] None (Some 0))\<rparr>"

text \<open>
  \<open>state_base\<close> has the heaps of \<open>state_chain\<close>, a root-TCP-socket credentials object
  (credentials 3), the connection \<open>root\<close> on a Unix socket with uid 0 and the connection
  \<open>local\<close> on the loopback address. \<open>state_sess\<close> is the state after \<open>conn1\<close> logged in
  with the password credentials, \<open>root\<close> with the same and \<open>local\<close> with the root-TCP-socket
  credentials.
\<close>

definition state_base :: state where
  "state_base =
     state_chain\<lparr>cred_heap := (cred_heap state_chain)(3 := RootTcpSocketSessionManagerCredentials),
                 next_cred_ref := 4,
                 apps := (apps state0)
                   (''root'' := (apps state0 ''root'')\<lparr>origin := UnixSocketOrigin 0\<rparr>,
                    ''local'' := (apps state0 ''local'')\<lparr>origin := TCPIPOrigin ''127.0.0.1'' 40000\<rparr>)\<rparr>"

definition state_sess :: state where
  "state_sess =
     (case run [Login 1 ''conn1'' 0, Login 2 ''root'' 0, Login 3 ''local'' 3] state_base of
        Inr st \<Rightarrow> st
      | Inl _ \<Rightarrow> state_base)"

text \<open>
  \<open>state_attr\<close> is \<open>state_base\<close> after a token with a time-to-live of 600 seconds and the
  attributes \<^verbatim>\<open>{"filename": "dump.txz"}\<close> was created at time 0 for the credentials 0.
\<close>

definition state_attr :: state where
  "state_attr =
     snd (TokenManager_create 0 ''tok'' 600 (Some [(''filename'', ''dump.txz'')]) None (Some 0)
       state_base)"

text \<open>
  Collaborators with two-factor authentication enabled: the account store accepts the
  user \<open>admin\<close> with the password \<open>secret\<close>, the verification accepts the code 123456.
\<close>

definition mw0 :: middleware where
  "mw0 = \<lparr>authenticate = (\<lambda>u p. if u = ''admin'' \<and> p = ''secret'' then Some user0 else None),
          twofactor_enabled = True,
          twofactor_verify = (\<lambda>t. t = Some ''123456'')\<rparr>"

section \<open>Properties\<close>

subsection \<open>The token registry keeps its invariant\<close>

lemma tokens_wf_create:
  "tokens_wf st \<Longrightarrow> tokens_wf (snd (TokenManager_create now k T attrs mo p st))"
  by (auto simp: tokens_wf_def TokenManager_create_def Token_init_def Let_def less_Suc_eq)

lemma tokens_wf_get:
  "tokens_wf st \<Longrightarrow> TokenManager_get now k org st = Inr (res, st') \<Longrightarrow> tokens_wf st'"
  by (auto simp: tokens_wf_def TokenManager_get_def split: option.splits if_splits)

lemma tokens_wf_destroy:
  "tokens_wf st \<Longrightarrow> tokens_wf (TokenManager_destroy key st)"
  by (cases key) (auto simp: tokens_wf_def)

lemma tokens_wf_state0: "tokens_wf state0"
  by (simp add: tokens_wf_def state0_def)

lemma tokens_wf_state_tok: "tokens_wf state_tok"
  unfolding state_tok_def by (rule tokens_wf_create [OF tokens_wf_state0])

lemma state_tok_simps:
  "tokens state_tok = [''tok'' \<mapsto> 0]"
  "token_heap state_tok 0 = Token_init 0 ''tok'' 1 [] (Some (UnixSocketOrigin 1000)) None"
  by (simp_all add: state_tok_def state0_def TokenManager_create_def Let_def)

subsection \<open>Token lookup\<close>

text \<open>
  C1. In a registry that satisfies its invariant, \<^verbatim>\<open>TokenManager.get\<close> returns the stored
  token exactly when the id is a key, the token is valid and any origin constraint has
  the class and the discriminator of the requesting origin, and then the registry is
  unchanged. For an unknown id it returns \<^verbatim>\<open>None\<close>. For a known token that is expired it
  returns \<^verbatim>\<open>None\<close> and removes the entry, so that a second lookup of the same id finds no
  entry and changes nothing. For a valid token whose constraint does not match it returns
  \<^verbatim>\<open>None\<close> and leaves the registry as it was.
\<close>

theorem TokenManager_get_result:
  assumes "tokens_wf st"
  shows
   "((TokenManager_get now k org st = Inr (Some r, st)) =
       (tokens st k = Some r \<and> Token_is_valid now (token_heap st r) \<and>
        (\<forall>mo. match_origin (token_heap st r) = Some mo \<longrightarrow>
              isinstance_origin org mo \<and> origin_match mo org))) \<and>
    (\<forall>st'. TokenManager_get now k org st = Inr (Some r, st') \<longrightarrow> st' = st) \<and>
    (tokens st k = None \<longrightarrow> TokenManager_get now k org st = Inr (None, st)) \<and>
    (tokens st k = Some r \<and> \<not> Token_is_valid now (token_heap st r) \<longrightarrow>
       TokenManager_get now k org st = Inr (None, st\<lparr>tokens := (tokens st)(k := None)\<rparr>) \<and>
       TokenManager_get now2 k org2 (st\<lparr>tokens := (tokens st)(k := None)\<rparr>) =
         Inr (None, st\<lparr>tokens := (tokens st)(k := None)\<rparr>)) \<and>
    (tokens st k = Some r \<and> Token_is_valid now (token_heap st r) \<and>
     match_origin (token_heap st r) = Some mo \<and>
     \<not> (isinstance_origin org mo \<and> origin_match mo org) \<longrightarrow>
       TokenManager_get now k org st = Inr (None, st))"
proof -
  have key: "\<And>r. tokens st k = Some r \<Longrightarrow> token (token_heap st r) = k"
    using assms by (simp add: tokens_wf_def)
  show ?thesis
    by (auto simp: TokenManager_get_def key split: option.splits if_splits)
qed

text \<open>
  The token of \<open>state_tok\<close> is returned to uid 1000 half a second after its creation, is
  refused to a TCP origin and to uid 0 without being removed, and is removed by a lookup
  two seconds after its creation.
\<close>

theorem TokenManager_get_result_witness:
  "tokens_wf state_tok \<and>
   TokenManager_get (1/2) ''tok'' (UnixSocketOrigin 1000) state_tok = Inr (Some 0, state_tok) \<and>
   TokenManager_get (1/2) ''tok'' (TCPIPOrigin ''10.0.0.1'' 5000) state_tok = Inr (None, state_tok) \<and>
   TokenManager_get (1/2) ''tok'' (UnixSocketOrigin 0) state_tok = Inr (None, state_tok) \<and>
   TokenManager_get (1/2) ''other'' (UnixSocketOrigin 1000) state_tok = Inr (None, state_tok) \<and>
   TokenManager_get 2 ''tok'' (UnixSocketOrigin 1000) state_tok =
     Inr (None, state_tok\<lparr>tokens := (tokens state_tok)(''tok'' := None)\<rparr>) \<and>
   TokenManager_get 2 ''tok'' (UnixSocketOrigin 1000)
       (state_tok\<lparr>tokens := (tokens state_tok)(''tok'' := None)\<rparr>) =
     Inr (None, state_tok\<lparr>tokens := (tokens state_tok)(''tok'' := None)\<rparr>)"
  using
    TokenManager_get_result [OF tokens_wf_state_tok, of "1/2" "''tok''" "UnixSocketOrigin 1000" 0]
    TokenManager_get_result [OF tokens_wf_state_tok, of "1/2" "''tok''" "TCPIPOrigin ''10.0.0.1'' 5000" 0
      2 "UnixSocketOrigin 1000" "UnixSocketOrigin 1000"]
    TokenManager_get_result [OF tokens_wf_state_tok, of "1/2" "''tok''" "UnixSocketOrigin 0" 0
      2 "UnixSocketOrigin 1000" "UnixSocketOrigin 1000"]
    TokenManager_get_result [OF tokens_wf_state_tok, of "1/2" "''other''" "UnixSocketOrigin 1000"]
    TokenManager_get_result [OF tokens_wf_state_tok, of 2 "''tok''" "UnixSocketOrigin 1000" 0
      2 "UnixSocketOrigin 1000"]
  by (simp add: tokens_wf_state_tok state_tok_simps Token_init_def Token_is_valid_def)

subsection \<open>Token lifetime\<close>



subsection \<open>Token inspection\<close>

text \<open>
  C10. \<^verbatim>\<open>get_token\<close> returns the attributes of every token whose id is a key of the
  registry and \<^verbatim>\<open>None\<close> for every other id; it reads neither the clock nor an origin. An
  expired token that no lookup has removed yet is still inspected, and is no longer once
  \<^verbatim>\<open>TokenManager.get\<close> has looked it up.
\<close>

theorem get_token_unchecked:
  "((AuthService_get_token k st = None) = (tokens st k = None)) \<and>
   (tokens st k = Some r \<longrightarrow>
      AuthService_get_token k st = Some [(''attributes'', attributes (token_heap st r))]) \<and>
   (tokens_wf st \<and> tokens st k = Some r \<and> \<not> Token_is_valid now (token_heap st r) \<longrightarrow>
      AuthService_get_token k st = Some [(''attributes'', attributes (token_heap st r))] \<and>
      (\<forall>res st'. TokenManager_get now k org st = Inr (res, st') \<longrightarrow>
          AuthService_get_token k st' = None))"
proof -
  have "AuthService_get_token k st' = None"
    if "tokens_wf st" "tokens st k = Some r" "\<not> Token_is_valid now (token_heap st r)"
      "TokenManager_get now k org st = Inr (res, st')" for res st'
  proof -
    have "token (token_heap st r) = k"
      using that(1,2) by (simp add: tokens_wf_def)
    with that(2-4) have "tokens st' k = None"
      by (auto simp: TokenManager_get_def split: option.splits)
    then show ?thesis
      by (simp add: AuthService_get_token_def)
  qed
  then show ?thesis
    by (auto simp: AuthService_get_token_def split: option.splits)
qed

text \<open>
  Two seconds after its creation the token of \<open>state_tok\<close> is expired and still
  inspected; an unknown id is not.
\<close>

theorem get_token_unchecked_witness:
  "\<not> Token_is_valid 2 (token_heap state_tok 0) \<and>
   AuthService_get_token ''tok'' state_tok = Some [(''attributes'', [])] \<and>
   AuthService_get_token ''other'' state_tok = None \<and>
   AuthService_get_token ''tok''
     (state_tok\<lparr>tokens := (tokens state_tok)(''tok'' := None)\<rparr>) = None"
  using
    get_token_unchecked [of "''tok''" state_tok 0 2 "UnixSocketOrigin 1000"]
    get_token_unchecked [of "''other''" state_tok 0 2 "UnixSocketOrigin 1000"]
    get_token_unchecked [of "''tok''" "state_tok\<lparr>tokens := (tokens state_tok)(''tok'' := None)\<rparr>"
      0 2 "UnixSocketOrigin 1000"]
  by (simp add: tokens_wf_state_tok state_tok_simps Token_init_def Token_is_valid_def)

subsection \<open>Authorization of a token credential\<close>

text \<open>
  C3. The \<^verbatim>\<open>authorize\<close> of a token credential returns what the \<^verbatim>\<open>authorize\<close> of the
  parent credentials of its token returns, in the state of the call: also after the parent
  object was replaced or mutated, and when the parent is a password login whose allowlist
  is now \<open>al\<close> the answer is that of \<open>al\<close>. No decision is stored.
\<close>

theorem token_authorize_defers:
  "cred_heap st c = TokenSessionManagerCredentials r \<and>
   parent_credentials (token_heap st r) = Some p \<longrightarrow>
     authorize A st m res c = authorize A st m res p \<and>
     (c \<noteq> p \<longrightarrow>
        authorize A (st\<lparr>cred_heap := (cred_heap st)(p := obj)\<rparr>) m res c =
        authorize A (st\<lparr>cred_heap := (cred_heap st)(p := obj)\<rparr>) m res p) \<and>
     (c \<noteq> p \<longrightarrow>
        authorize A (st\<lparr>cred_heap := (cred_heap st)
                        (p := LoginPasswordSessionManagerCredentials u al)\<rparr>) m res c =
        Some (Inr (A al m res)))"
proof (intro impI, elim conjE)
  assume hc: "cred_heap st c = TokenSessionManagerCredentials r"
    and hp: "parent_credentials (token_heap st r) = Some p"
  have deferred: "authorize A st' m res c = authorize A st' m res p"
    if "cred_heap st' c = TokenSessionManagerCredentials r"
      "parent_credentials (token_heap st' r) = Some p" for st'
    using that by (subst authorize.simps) simp
  have user_case: "authorize A st' m res p = Some (Inr (A al m res))"
    if "cred_heap st' p = LoginPasswordSessionManagerCredentials u al" for st'
    using that by (subst authorize.simps) simp
  show "authorize A st m res c = authorize A st m res p \<and>
     (c \<noteq> p \<longrightarrow>
        authorize A (st\<lparr>cred_heap := (cred_heap st)(p := obj)\<rparr>) m res c =
        authorize A (st\<lparr>cred_heap := (cred_heap st)(p := obj)\<rparr>) m res p) \<and>
     (c \<noteq> p \<longrightarrow>
        authorize A (st\<lparr>cred_heap := (cred_heap st)
                        (p := LoginPasswordSessionManagerCredentials u al)\<rparr>) m res c =
        Some (Inr (A al m res)))"
    using hc hp by (auto simp: deferred user_case)
qed

text \<open>
  With an allowlist that authorizes its own entries: both tokens of \<open>state_chain\<close> may
  call \<^verbatim>\<open>pool.query\<close> as the user may, and the first no longer may once the allowlist of
  the user's credentials is empty.
\<close>

theorem token_authorize_defers_witness:
  "authorize (\<lambda>al m r. (m, r) \<in> set al) state_chain ''CALL'' ''pool.query'' 2 = Some (Inr True) \<and>
   authorize (\<lambda>al m r. (m, r) \<in> set al) state_chain ''CALL'' ''pool.query'' 1 = Some (Inr True) \<and>
   authorize (\<lambda>al m r. (m, r) \<in> set al)
     (state_chain\<lparr>cred_heap := (cred_heap state_chain)
        (0 := LoginPasswordSessionManagerCredentials user0 [])\<rparr>) ''CALL'' ''pool.query'' 1 =
     Some (Inr False)"
  using
    token_authorize_defers [of state_chain 2 1 1 "\<lambda>al m r. (m, r) \<in> set al" "''CALL''" "''pool.query''"
      "LoginPasswordSessionManagerCredentials user0 []" user0 "[]"]
    token_authorize_defers [of state_chain 1 0 0 "\<lambda>al m r. (m, r) \<in> set al" "''CALL''" "''pool.query''"
      "LoginPasswordSessionManagerCredentials user0 []" user0 "[]"]
  by (simp add: state_chain_def state0_def Token_init_def user0_def authorize.simps)

subsection \<open>Root credentials\<close>

lemma loop_of_chain:
  "parent_chain st creds rs final \<Longrightarrow> root_credentials_loop st creds = Some final"
proof (induction rs arbitrary: creds)
  case Nil
  then show ?case
    by (subst root_credentials_loop.simps) (auto split: option.splits credentials.splits)
next
  case (Cons r rs)
  then show ?case
    by (subst root_credentials_loop.simps) (auto split: option.splits)
qed

lemma chain_of_loop:
  assumes "root_credentials_loop st creds = Some final"
  shows "\<exists>rs. parent_chain st creds rs final"
proof (induction rule: root_credentials_loop.raw_induct [OF _ assms])
  case (1 loop st creds final)
  show ?case
  proof (cases creds)
    case None
    with 1(2) have "parent_chain st creds [] final" by auto
    then show ?thesis ..
  next
    case (Some c)
    show ?thesis
    proof (cases "\<exists>r. cred_heap st c = TokenSessionManagerCredentials r")
      case True
      then obtain r where r: "cred_heap st c = TokenSessionManagerCredentials r" ..
      with 1(2) Some have "loop st (parent_credentials (token_heap st r)) = Some final" by simp
      from 1(1) [OF this] obtain rs where
        "parent_chain st (parent_credentials (token_heap st r)) rs final" by blast
      with r Some have "parent_chain st creds (r # rs) final" by simp
      then show ?thesis ..
    next
      case False
      with 1(2) Some have "parent_chain st creds [] final"
        by (auto split: credentials.splits)
      then show ?thesis ..
    qed
  qed
qed

lemma cycle_no_chain: "\<not> parent_chain state_cycle (Some c) rs final"
  by (induction rs arbitrary: c) (auto simp: state_cycle_def Token_init_def split: option.splits)

text \<open>
  C9, as the code has it. \<^verbatim>\<open>Token.root_credentials()\<close> returns \<open>final\<close> exactly when the
  parent chain of the token reaches \<open>final\<close> after finitely many token credentials, \<open>final\<close>
  being the first credentials object of the chain that is not token-derived, or \<^verbatim>\<open>None\<close>
  when the chain ends in \<^verbatim>\<open>None\<close>. So the loop returns for every such chain, and only
  for such a chain.
\<close>

theorem root_credentials_chain:
  "(root_credentials st t = Some final) = (\<exists>rs. parent_chain st (parent_credentials t) rs final)"
  unfolding root_credentials_def using loop_of_chain chain_of_loop by blast

text \<open>
  The root of token 1 of \<open>state_chain\<close> is the password login, reached through the
  credentials of token 0.
\<close>

theorem root_credentials_chain_witness:
  "parent_chain state_chain (parent_credentials (token_heap state_chain 1)) [0] (Some 0) \<and>
   root_credentials state_chain (token_heap state_chain 1) = Some (Some 0)"
proof -
  have chain: "parent_chain state_chain (parent_credentials (token_heap state_chain 1)) [0] (Some 0)"
    by (simp add: state_chain_def state0_def Token_init_def)
  then have "\<exists>rs. parent_chain state_chain (parent_credentials (token_heap state_chain 1)) rs (Some 0)" ..
  with root_credentials_chain [of state_chain "token_heap state_chain 1" "Some 0"] chain
  show ?thesis by simp
qed

text \<open>
  The loop has no bound: on the cyclic chain of \<open>state_cycle\<close> it does not return.
\<close>

theorem root_credentials_cycle_diverges:
  "root_credentials state_cycle (token_heap state_cycle 0) = None"
proof (cases "root_credentials state_cycle (token_heap state_cycle 0)")
  case None
  then show ?thesis .
next
  case (Some y)
  then have "root_credentials_loop state_cycle (Some 0) = Some y"
    by (simp add: root_credentials_def state_cycle_def Token_init_def)
  from chain_of_loop [OF this] cycle_no_chain show ?thesis by blast
qed

subsection \<open>The session registry keeps its invariant\<close>

lemma sessions_wfI:
  assumes "distinct (map fst (sessions st))"
    and "\<And>a. authenticated (apps st a) = (map_of (sessions st) a \<noteq> None)"
    and "\<And>a s. map_of (sessions st) a = Some s \<Longrightarrow>
           app s = a \<and> authenticated_credentials (apps st a) = Some (credentials s)"
  shows "sessions_wf st"
  unfolding sessions_wf_def using assms by blast

lemma sessions_wf_distinct: "sessions_wf st \<Longrightarrow> distinct (map fst (sessions st))"
  by (simp add: sessions_wf_def)

lemma sessions_wf_authenticated:
  "sessions_wf st \<Longrightarrow> authenticated (apps st a) = (map_of (sessions st) a \<noteq> None)"
  unfolding sessions_wf_def by blast

lemma sessions_wf_session:
  "sessions_wf st \<Longrightarrow> map_of (sessions st) a = Some s \<Longrightarrow>
   app s = a \<and> authenticated_credentials (apps st a) = Some (credentials s)"
  unfolding sessions_wf_def by blast

lemma sessions_wf_initial: "initial st \<Longrightarrow> sessions_wf st"
  by (simp add: initial_def sessions_wf_def)

lemma credentials_logout_id: "credentials_logout st c = st"
  by (simp add: credentials_logout_def split: credentials.splits)

lemma is_internal_session_cong:
  "apps st' = apps st \<Longrightarrow> cred_heap st' = cred_heap st \<Longrightarrow>
   is_internal_session st' s = is_internal_session st s"
  by (auto simp: is_internal_session_def split: option.splits)

lemma logout_fields:
  "sessions (SessionManager_logout a st) = AList.delete a (sessions st)"
  "apps (SessionManager_logout a st) = (apps st)(a := (apps st a)\<lparr>authenticated := False\<rparr>)"
  "cred_heap (SessionManager_logout a st) = cred_heap st"
  "tokens (SessionManager_logout a st) = tokens st"
  "token_heap (SessionManager_logout a st) = token_heap st"
  by (simp_all add: SessionManager_logout_def Let_def credentials_logout_id send_event_def
      split: option.splits)

lemma logout_events:
  "events (SessionManager_logout a st) =
     (case map_of (sessions st) a of
        None \<Rightarrow> events st
      | Some s \<Rightarrow> if is_internal_session st s then events st
                  else events st @ [(''auth.sessions'', REMOVED, a)])"
proof -
  have "is_internal_session (st\<lparr>sessions := AList.delete a (sessions st)\<rparr>) s = is_internal_session st s" for s
    by (rule is_internal_session_cong) simp_all
  then show ?thesis
    by (simp add: SessionManager_logout_def Let_def credentials_logout_id send_event_def
        split: option.splits)
qed

lemma login_again:
  assumes "authenticated (apps st a)" "map_of (sessions st) a = Some s"
  shows "SessionManager_login now a c st =
     Inr (st\<lparr>sessions := AList.update a (s\<lparr>credentials := c\<rparr>) (sessions st),
             apps := (apps st)(a := (apps st a)\<lparr>authenticated_credentials := Some c\<rparr>)\<rparr>)"
  using assms by (simp add: SessionManager_login_def)

lemma login_fresh:
  assumes "\<not> authenticated (apps st a)"
  shows "\<exists>st'. SessionManager_login now a c st = Inr st' \<and>
     sessions st' = AList.update a \<lparr>credentials = c, app = a, created_at = now\<rparr> (sessions st) \<and>
     apps st' = (apps st)(a := (apps st a)\<lparr>authenticated := True,
        authenticated_credentials := Some c,
        callbacks := callbacks (apps st a) @ [(''on_message'', app_on_message), (''on_close'', app_on_close)]\<rparr>) \<and>
     cred_heap st' = cred_heap st \<and> tokens st' = tokens st \<and> token_heap st' = token_heap st \<and>
     events st' =
       (if is_internal_session st' \<lparr>credentials = c, app = a, created_at = now\<rparr> then events st
        else events st @ [(''auth.sessions'', ADDED, a)])"
proof -
  define st2 where "st2 = st\<lparr>sessions := AList.update a \<lparr>credentials = c, app = a, created_at = now\<rparr> (sessions st),
      apps := (apps st)(a := register_callback ''on_close'' app_on_close
                       (register_callback ''on_message'' app_on_message
                         ((apps st a)\<lparr>authenticated := True,
                                       authenticated_credentials := Some c\<rparr>)))\<rparr>"
  have login: "SessionManager_login now a c st =
      Inr (if \<not> is_internal_session st2 \<lparr>credentials = c, app = a, created_at = now\<rparr>
           then send_event ''auth.sessions'' ADDED a st2 else st2)"
    using assms by (simp add: SessionManager_login_def Let_def st2_def)
  have same: "is_internal_session (send_event ''auth.sessions'' ADDED a st2) s = is_internal_session st2 s" for s
    by (rule is_internal_session_cong) (simp_all add: send_event_def)
  show ?thesis
    unfolding login
    by (simp add: same) (simp add: st2_def send_event_def register_callback_def)
qed

lemma sessions_wf_login:
  assumes "sessions_wf st" "SessionManager_login now a c st = Inr st'"
  shows "sessions_wf st'"
proof (cases "authenticated (apps st a)")
  case True
  with sessions_wf_authenticated [OF assms(1), of a]
  obtain s where s: "map_of (sessions st) a = Some s" by auto
  from login_again [OF True s, of now c] assms(2)
  have st': "sessions st' = AList.update a (s\<lparr>credentials := c\<rparr>) (sessions st)"
    "apps st' = (apps st)(a := (apps st a)\<lparr>authenticated_credentials := Some c\<rparr>)"
    by auto
  show ?thesis
  proof (rule sessions_wfI)
    show "distinct (map fst (sessions st'))"
      using sessions_wf_distinct [OF assms(1)] by (simp add: st' distinct_update)
  next
    fix b
    show "authenticated (apps st' b) = (map_of (sessions st') b \<noteq> None)"
      using sessions_wf_authenticated [OF assms(1), of b] True
      by (simp add: st' update_conv')
  next
    fix b s'
    assume "map_of (sessions st') b = Some s'"
    then show "app s' = b \<and> authenticated_credentials (apps st' b) = Some (credentials s')"
      using sessions_wf_session [OF assms(1), of b s'] sessions_wf_session [OF assms(1) s]
      by (auto simp: st' update_conv' split: if_splits)
  qed
next
  case False
  from login_fresh [OF False, of now c] assms(2)
  have st': "sessions st' = AList.update a \<lparr>credentials = c, app = a, created_at = now\<rparr> (sessions st)"
    "apps st' = (apps st)(a := (apps st a)\<lparr>authenticated := True,
        authenticated_credentials := Some c,
        callbacks := callbacks (apps st a) @ [(''on_message'', app_on_message), (''on_close'', app_on_close)]\<rparr>)"
    by auto
  show ?thesis
  proof (rule sessions_wfI)
    show "distinct (map fst (sessions st'))"
      using sessions_wf_distinct [OF assms(1)] by (simp add: st' distinct_update)
  next
    fix b
    show "authenticated (apps st' b) = (map_of (sessions st') b \<noteq> None)"
      using sessions_wf_authenticated [OF assms(1), of b]
      by (simp add: st' update_conv')
  next
    fix b s'
    assume "map_of (sessions st') b = Some s'"
    then show "app s' = b \<and> authenticated_credentials (apps st' b) = Some (credentials s')"
      using sessions_wf_session [OF assms(1), of b s']
      by (auto simp: st' update_conv' split: if_splits)
  qed
qed

lemma sessions_wf_logout:
  assumes "sessions_wf st"
  shows "sessions_wf (SessionManager_logout a st)"
proof (rule sessions_wfI)
  show "distinct (map fst (sessions (SessionManager_logout a st)))"
    using sessions_wf_distinct [OF assms] by (simp add: logout_fields distinct_delete)
next
  fix b
  show "authenticated (apps (SessionManager_logout a st) b) =
      (map_of (sessions (SessionManager_logout a st)) b \<noteq> None)"
    using sessions_wf_authenticated [OF assms, of b]
    by (simp add: logout_fields delete_conv')
next
  fix b s'
  assume "map_of (sessions (SessionManager_logout a st)) b = Some s'"
  then show "app s' = b \<and>
      authenticated_credentials (apps (SessionManager_logout a st) b) = Some (credentials s')"
    using sessions_wf_session [OF assms, of b s']
    by (auto simp: logout_fields delete_conv' split: if_splits)
qed

lemma sessions_wf_on_message:
  assumes "sessions_wf st"
  shows "sessions_wf (SessionManager_app_on_message now a st)"
proof (cases "map_of (sessions st) a")
  case None
  have "sessions_wf (st\<lparr>apps := (apps st)(a := (apps st a)\<lparr>authenticated := False\<rparr>)\<rparr>)"
  proof (rule sessions_wfI)
    fix b
    show "authenticated (apps (st\<lparr>apps := (apps st)(a := (apps st a)\<lparr>authenticated := False\<rparr>)\<rparr>) b) =
      (map_of (sessions (st\<lparr>apps := (apps st)(a := (apps st a)\<lparr>authenticated := False\<rparr>)\<rparr>)) b \<noteq> None)"
      using sessions_wf_authenticated [OF assms, of b] None by simp
  next
    fix b s'
    assume "map_of (sessions (st\<lparr>apps := (apps st)(a := (apps st a)\<lparr>authenticated := False\<rparr>)\<rparr>)) b = Some s'"
    then show "app s' = b \<and>
      authenticated_credentials (apps (st\<lparr>apps := (apps st)(a := (apps st a)\<lparr>authenticated := False\<rparr>)\<rparr>) b) =
        Some (credentials s')"
      using sessions_wf_session [OF assms, of b s'] by auto
  qed (use sessions_wf_distinct [OF assms] in simp)
  with None show ?thesis
    by (simp add: SessionManager_app_on_message_def)
next
  case (Some s)
  have "sessions_wf (credentials_notify_used now st (credentials s))"
    using assms by (simp add: credentials_notify_used_def sessions_wf_def split: credentials.splits)
  with Some sessions_wf_logout [OF assms] show ?thesis
    by (simp add: SessionManager_app_on_message_def)
qed

lemma sessions_wf_step:
  "sessions_wf st \<Longrightarrow> step x st = Inr st' \<Longrightarrow> sessions_wf st'"
  by (cases x)
    (auto simp: sessions_wf_login sessions_wf_logout sessions_wf_on_message
      SessionManager_app_on_close_def)

lemma sessions_wf_run:
  "sessions_wf st \<Longrightarrow> run xs st = Inr st' \<Longrightarrow> sessions_wf st'"
proof (induction xs arbitrary: st)
  case Nil
  then show ?case by simp
next
  case (Cons x xs)
  then show ?case
    by (auto split: sum.splits dest: sessions_wf_step)
qed

subsection \<open>Logging in twice\<close>

lemma insort_key_map:
  "map h (insort_key (\<lambda>x. g (h x)) x xs) = insort_key g (h x) (map h xs)"
  by (induction xs) simp_all

lemma sort_key_map: "map h (sort_key (\<lambda>x. g (h x)) xs) = sort_key g (map h xs)"
  by (induction xs) (simp_all add: insort_key_map)

lemma map_update_same:
  "map_of al a = Some s \<Longrightarrow> h (a, s') = h (a, s) \<Longrightarrow> map h (AList.update a s' al) = map h al"
  by (induction al) (auto split: if_splits)

lemma listing_ids:
  "map entry_id (AuthService_sessions x (\<lambda>_. True) st) =
   map fst (sort_key (\<lambda>t. created_at (snd t)) (sessions st))"
  by (simp add: AuthService_sessions_def case_prod_unfold comp_def)

lemma listing_order_update:
  assumes "map_of al a = Some s" "created_at s' = created_at s"
  shows "map fst (sort_key (\<lambda>t. created_at (snd t)) (AList.update a s' al)) =
         map fst (sort_key (\<lambda>t. created_at (snd t)) al)"
proof -
  let ?h = "\<lambda>t. (fst t, created_at (snd t))"
  have same: "map ?h (AList.update a s' al) = map ?h al"
    using assms by (intro map_update_same) simp_all
  have sorted_ids: "map fst (sort_key (\<lambda>t. created_at (snd t)) l) = map fst (sort_key snd (map ?h l))" for l
  proof -
    have "map ?h (sort_key (\<lambda>t. snd (?h t)) l) = sort_key snd (map ?h l)"
      by (rule sort_key_map)
    then have "map fst (map ?h (sort_key (\<lambda>t. created_at (snd t)) l)) = map fst (sort_key snd (map ?h l))"
      by simp
    then show ?thesis by (simp add: comp_def)
  qed
  have "map fst (sort_key (\<lambda>t. created_at (snd t)) (AList.update a s' al)) =
      map fst (sort_key snd (map ?h (AList.update a s' al)))"
    by (rule sorted_ids)
  also have "\<dots> = map fst (sort_key snd (map ?h al))"
    using same by simp
  also have "\<dots> = map fst (sort_key (\<lambda>t. created_at (snd t)) al)"
    by (rule sorted_ids [symmetric])
  finally show ?thesis .
qed

lemma distinct_listing:
  "distinct (map fst al) \<Longrightarrow> distinct (map fst (sort_key f al))"
  by (simp add: distinct_map)

text \<open>
  C5. When the registry satisfies its invariant and the connection \<open>a\<close> has the session
  \<open>s\<close>, \<^verbatim>\<open>SessionManager.login\<close> on \<open>a\<close> returns, the registry has the same keys in the same
  order, the session of \<open>a\<close> has the new credentials and the creation time of \<open>s\<close>, every
  other session is untouched, the session listing has the same ids, each once, and no
  event is sent. A login on a connection that is not flagged authenticated returns as
  well, and after every login that returns the connection is flagged authenticated, its
  stored credentials are the new ones and so are those of its session.
\<close>

theorem login_again_replaces:
  "(sessions_wf st \<and> map_of (sessions st) a = Some s \<longrightarrow>
      (\<exists>st' s'. SessionManager_login now a c st = Inr st' \<and>
         map fst (sessions st') = map fst (sessions st) \<and>
         map_of (sessions st') a = Some s' \<and> credentials s' = c \<and>
         created_at s' = created_at s \<and> app s' = app s \<and>
         (\<forall>b. b \<noteq> a \<longrightarrow> map_of (sessions st') b = map_of (sessions st) b) \<and>
         map entry_id (AuthService_sessions x (\<lambda>_. True) st') =
           map entry_id (AuthService_sessions x (\<lambda>_. True) st) \<and>
         distinct (map entry_id (AuthService_sessions x (\<lambda>_. True) st')) \<and>
         authenticated (apps st' a) \<and> authenticated_credentials (apps st' a) = Some c \<and>
         events st' = events st)) \<and>
   (\<not> authenticated (apps st a) \<longrightarrow> (\<exists>st'. SessionManager_login now a c st = Inr st')) \<and>
   (\<forall>st'. SessionManager_login now a c st = Inr st' \<longrightarrow>
      authenticated (apps st' a) \<and> authenticated_credentials (apps st' a) = Some c \<and>
      (\<exists>s'. map_of (sessions st') a = Some s' \<and> credentials s' = c))"
proof (intro conjI impI allI)
  assume asm: "sessions_wf st \<and> map_of (sessions st) a = Some s"
  then have wf: "sessions_wf st" and s: "map_of (sessions st) a = Some s" by simp_all
  have auth: "authenticated (apps st a)"
    using sessions_wf_authenticated [OF wf, of a] s by simp
  define st' where "st' = st\<lparr>sessions := AList.update a (s\<lparr>credentials := c\<rparr>) (sessions st),
             apps := (apps st)(a := (apps st a)\<lparr>authenticated_credentials := Some c\<rparr>)\<rparr>"
  have login: "SessionManager_login now a c st = Inr st'"
    unfolding st'_def by (rule login_again [OF auth s])
  have keys: "map fst (sessions st') = map fst (sessions st)"
    using s by (simp add: st'_def map_update_same)
  have lookup: "map_of (sessions st') = (map_of (sessions st))(a \<mapsto> s\<lparr>credentials := c\<rparr>)"
    by (simp add: st'_def update_conv')
  have ids: "map entry_id (AuthService_sessions x (\<lambda>_. True) st') =
      map entry_id (AuthService_sessions x (\<lambda>_. True) st)"
    unfolding listing_ids using s by (simp add: st'_def listing_order_update)
  have "distinct (map fst (sessions st))"
    by (rule sessions_wf_distinct [OF wf])
  then have dist: "distinct (map entry_id (AuthService_sessions x (\<lambda>_. True) st'))"
    unfolding ids unfolding listing_ids by (rule distinct_listing)
  show "\<exists>st' s'. SessionManager_login now a c st = Inr st' \<and>
         map fst (sessions st') = map fst (sessions st) \<and>
         map_of (sessions st') a = Some s' \<and> credentials s' = c \<and>
         created_at s' = created_at s \<and> app s' = app s \<and>
         (\<forall>b. b \<noteq> a \<longrightarrow> map_of (sessions st') b = map_of (sessions st) b) \<and>
         map entry_id (AuthService_sessions x (\<lambda>_. True) st') =
           map entry_id (AuthService_sessions x (\<lambda>_. True) st) \<and>
         distinct (map entry_id (AuthService_sessions x (\<lambda>_. True) st')) \<and>
         authenticated (apps st' a) \<and> authenticated_credentials (apps st' a) = Some c \<and>
         events st' = events st"
    apply (rule exI [of _ st'])
    apply (rule exI [of _ "s\<lparr>credentials := c\<rparr>"])
    using login keys ids dist auth
    apply (simp add: lookup)
    apply (simp add: st'_def)
    done
next
  assume "\<not> authenticated (apps st a)"
  from login_fresh [OF this, of now c]
  show "\<exists>st'. SessionManager_login now a c st = Inr st'" by blast
next
  fix st'
  assume login: "SessionManager_login now a c st = Inr st'"
  show "authenticated (apps st' a)"
    "authenticated_credentials (apps st' a) = Some c"
    "\<exists>s'. map_of (sessions st') a = Some s' \<and> credentials s' = c"
  proof -
    have "authenticated (apps st' a) \<and> authenticated_credentials (apps st' a) = Some c \<and>
      (\<exists>s'. map_of (sessions st') a = Some s' \<and> credentials s' = c)"
    proof (cases "authenticated (apps st a)")
      case True
      with login obtain s where s: "map_of (sessions st) a = Some s"
        by (auto simp: SessionManager_login_def split: option.splits)
      from login login_again [OF True s, of now c] True show ?thesis
        by (auto simp: update_conv')
    next
      case False
      from login_fresh [OF False, of now c] login show ?thesis
        by (auto simp: update_conv')
    qed
    then show "authenticated (apps st' a)"
      "authenticated_credentials (apps st' a) = Some c"
      "\<exists>s'. map_of (sessions st') a = Some s' \<and> credentials s' = c"
      by simp_all
  qed
qed


lemma state_base_simps:
  "sessions state_base = []" "events state_base = []"
  "authenticated (apps state_base a) = False"
  "origin (apps state_base ''conn1'') = TCPIPOrigin ''10.0.0.1'' 5000"
  "origin (apps state_base ''root'') = UnixSocketOrigin 0"
  "origin (apps state_base ''local'') = TCPIPOrigin ''127.0.0.1'' 40000"
  "cred_heap state_base 0 = LoginPasswordSessionManagerCredentials user0 (privilege_allowlist user0)"
  "cred_heap state_base 1 = TokenSessionManagerCredentials 0"
  "cred_heap state_base 3 = RootTcpSocketSessionManagerCredentials"
  by (simp_all add: state_base_def state_chain_def state0_def)

lemma initial_state_base: "initial state_base"
  by (simp add: initial_def state_base_simps)

lemma run_state_sess:
  "run [Login 1 ''conn1'' 0, Login 2 ''root'' 0, Login 3 ''local'' 3] state_base = Inr state_sess"
  by (simp add: state_sess_def SessionManager_login_def state_base_simps Let_def
      is_internal_session_def send_event_def register_callback_def)

lemma state_sess_simps:
  "sessions state_sess =
     [(''conn1'', \<lparr>credentials = 0, app = ''conn1'', created_at = 1\<rparr>),
      (''root'', \<lparr>credentials = 0, app = ''root'', created_at = 2\<rparr>),
      (''local'', \<lparr>credentials = 3, app = ''local'', created_at = 3\<rparr>)]"
  "events state_sess = [(''auth.sessions'', ADDED, ''conn1'')]"
  "cred_heap state_sess = cred_heap state_base"
  "origin (apps state_sess a) = origin (apps state_base a)"
  "authenticated_credentials (apps state_sess ''conn1'') = Some 0"
  "authenticated_credentials (apps state_sess ''root'') = Some 0"
  "authenticated_credentials (apps state_sess ''local'') = Some 3"
  by (simp_all add: state_sess_def SessionManager_login_def state_base_simps Let_def
      is_internal_session_def send_event_def register_callback_def)

lemma sessions_wf_state_sess: "sessions_wf state_sess"
  by (rule sessions_wf_run [OF sessions_wf_initial [OF initial_state_base] run_state_sess])



text \<open>
  In \<open>state_sess\<close> the connection \<open>conn1\<close> logs in again, with the token credentials 1, at
  time 5: the three sessions stay, and the session of \<open>conn1\<close> keeps its creation time 1.
\<close>

theorem login_again_replaces_witness:
  "sessions_wf state_sess \<and>
   map_of (sessions state_sess) ''conn1'' = Some \<lparr>credentials = 0, app = ''conn1'', created_at = 1\<rparr> \<and>
   (\<exists>st' s'. SessionManager_login 5 ''conn1'' 1 state_sess = Inr st' \<and>
      map fst (sessions st') = [''conn1'', ''root'', ''local''] \<and>
      map_of (sessions st') ''conn1'' = Some s' \<and> credentials s' = 1 \<and> created_at s' = 1 \<and>
      authenticated (apps st' ''conn1'') \<and>
      authenticated_credentials (apps st' ''conn1'') = Some 1 \<and>
      events st' = [(''auth.sessions'', ADDED, ''conn1'')])"
proof -
  have conn1: "map_of (sessions state_sess) ''conn1'' =
      Some \<lparr>credentials = 0, app = ''conn1'', created_at = 1\<rparr>"
    by (simp add: state_sess_simps)
  from login_again_replaces [of state_sess "''conn1''"
      "\<lparr>credentials = 0, app = ''conn1'', created_at = 1\<rparr>" 5 1 "''conn1''",
      THEN conjunct1, rule_format, OF conjI, OF sessions_wf_state_sess conn1]
  obtain st' s' where
    "SessionManager_login 5 ''conn1'' 1 state_sess = Inr st'"
    "map fst (sessions st') = map fst (sessions state_sess)"
    "map_of (sessions st') ''conn1'' = Some s'" "credentials s' = 1"
    "created_at s' = created_at \<lparr>credentials = 0, app = ''conn1'', created_at = 1\<rparr>"
    "authenticated (apps st' ''conn1'')"
    "authenticated_credentials (apps st' ''conn1'') = Some 1"
    "events st' = events state_sess"
    by blast
  then have "SessionManager_login 5 ''conn1'' 1 state_sess = Inr st' \<and>
      map fst (sessions st') = [''conn1'', ''root'', ''local''] \<and>
      map_of (sessions st') ''conn1'' = Some s' \<and> credentials s' = 1 \<and> created_at s' = 1 \<and>
      authenticated (apps st' ''conn1'') \<and>
      authenticated_credentials (apps st' ''conn1'') = Some 1 \<and>
      events st' = [(''auth.sessions'', ADDED, ''conn1'')]"
    by (simp add: state_sess_simps)
  then have "\<exists>st' s'. SessionManager_login 5 ''conn1'' 1 state_sess = Inr st' \<and>
      map fst (sessions st') = [''conn1'', ''root'', ''local''] \<and>
      map_of (sessions st') ''conn1'' = Some s' \<and> credentials s' = 1 \<and> created_at s' = 1 \<and>
      authenticated (apps st' ''conn1'') \<and>
      authenticated_credentials (apps st' ''conn1'') = Some 1 \<and>
      events st' = [(''auth.sessions'', ADDED, ''conn1'')]"
    by (intro exI)
  with sessions_wf_state_sess conn1 show ?thesis by (intro conjI)
qed

subsection \<open>Internal sessions\<close>

lemma is_internal_session_iff:
  assumes "sessions_wf st" "map_of (sessions st) a = Some s"
  shows "is_internal_session st s =
     (origin (apps st a) = UnixSocketOrigin 0 \<or>
      cred_heap st (credentials s) = RootTcpSocketSessionManagerCredentials \<or>
      cred_heap st (credentials s) = TrueNasNodeSessionManagerCredentials)"
  using sessions_wf_session [OF assms]
  by (auto simp: is_internal_session_def split: origin.splits credentials.splits)

lemma login_events:
  assumes "sessions_wf st" "SessionManager_login now a c st = Inr st'"
  shows "events st' = events st \<or>
     (\<exists>s. events st' = events st @ [(''auth.sessions'', ADDED, a)] \<and>
          map_of (sessions st') a = Some s \<and> \<not> is_internal_session st' s)"
proof (cases "authenticated (apps st a)")
  case True
  with sessions_wf_authenticated [OF assms(1), of a]
  obtain s where s: "map_of (sessions st) a = Some s" by auto
  from login_again [OF True s, of now c] assms(2) show ?thesis by auto
next
  case False
  from login_fresh [OF False, of now c] assms(2)
  have "map_of (sessions st') a = Some \<lparr>credentials = c, app = a, created_at = now\<rparr>"
    and "events st' =
       (if is_internal_session st' \<lparr>credentials = c, app = a, created_at = now\<rparr> then events st
        else events st @ [(''auth.sessions'', ADDED, a)])"
    by (auto simp: update_conv')
  then show ?thesis by auto
qed

lemma logout_events_cases:
  "events (SessionManager_logout a st) = events st \<or>
     (\<exists>s. events (SessionManager_logout a st) = events st @ [(''auth.sessions'', REMOVED, a)] \<and>
          map_of (sessions st) a = Some s \<and> \<not> is_internal_session st s)"
  by (auto simp: logout_events split: option.splits)

lemma on_message_events_cases:
  "events (SessionManager_app_on_message now a st) = events st \<or>
     (\<exists>s. events (SessionManager_app_on_message now a st) =
            events st @ [(''auth.sessions'', REMOVED, a)] \<and>
          map_of (sessions st) a = Some s \<and> \<not> is_internal_session st s)"
proof (cases "map_of (sessions st) a")
  case None
  then show ?thesis by (simp add: SessionManager_app_on_message_def)
next
  case (Some s)
  have "events (credentials_notify_used now st (credentials s)) = events st"
    by (simp add: credentials_notify_used_def split: credentials.splits)
  with Some logout_events_cases [of a st] show ?thesis
    by (auto simp: SessionManager_app_on_message_def)
qed

lemma step_events:
  assumes "sessions_wf st" "step x st = Inr st'"
  shows "events st' = events st \<or>
     (\<exists>a s. events st' = events st @ [(''auth.sessions'', ADDED, a)] \<and>
          map_of (sessions st') a = Some s \<and> \<not> is_internal_session st' s) \<or>
     (\<exists>a s. events st' = events st @ [(''auth.sessions'', REMOVED, a)] \<and>
          map_of (sessions st) a = Some s \<and> \<not> is_internal_session st s)"
proof (cases x)
  case (Login now a c)
  with assms login_events [of st now a c st'] show ?thesis by auto
next
  case (Logout a)
  with assms(2) logout_events_cases [of a st] show ?thesis by auto
next
  case (OnMessage now a)
  with assms(2) on_message_events_cases [of now a st] show ?thesis by auto
next
  case (OnClose a)
  with assms(2) logout_events_cases [of a st] show ?thesis
    by (auto simp: SessionManager_app_on_close_def)
qed

lemma listing_entry:
  assumes "e \<in> set (AuthService_sessions x filters st)"
  shows "\<exists>s. (entry_id e, s) \<in> set (sessions st) \<and> entry_internal e = is_internal_session st s \<and> filters e"
  using assms by (auto simp: AuthService_sessions_def)

text \<open>
  C4. In every state that a sequence of logins, logouts, messages and closes reaches from
  the start: a session is classified internal exactly when the origin of its connection is
  a Unix socket with uid 0 or its credentials are root-TCP-socket or node credentials; an
  operation sends no event, or one \<^verbatim>\<open>ADDED\<close> event for a session that is not internal
  after it, or one \<^verbatim>\<open>REMOVED\<close> event for a session that was not internal before it; and an
  internal session has no entry in the listing filtered to exclude internal sessions.
\<close>

theorem internal_sessions_silent:
  assumes "initial st0" "run xs st0 = Inr st"
  shows
  "(\<forall>a s. map_of (sessions st) a = Some s \<longrightarrow>
       is_internal_session st s =
         (origin (apps st a) = UnixSocketOrigin 0 \<or>
          cred_heap st (credentials s) = RootTcpSocketSessionManagerCredentials \<or>
          cred_heap st (credentials s) = TrueNasNodeSessionManagerCredentials)) \<and>
   (\<forall>x st'. step x st = Inr st' \<longrightarrow>
       events st' = events st \<or>
       (\<exists>a s. events st' = events st @ [(''auth.sessions'', ADDED, a)] \<and>
              map_of (sessions st') a = Some s \<and> \<not> is_internal_session st' s) \<or>
       (\<exists>a s. events st' = events st @ [(''auth.sessions'', REMOVED, a)] \<and>
              map_of (sessions st) a = Some s \<and> \<not> is_internal_session st s)) \<and>
   (\<forall>x a s. map_of (sessions st) a = Some s \<and> is_internal_session st s \<longrightarrow>
       a \<notin> entry_id ` set (AuthService_sessions x exclude_internal st))"
proof -
  have wf: "sessions_wf st"
    by (rule sessions_wf_run [OF sessions_wf_initial [OF assms(1)] assms(2)])
  have listed: "a \<notin> entry_id ` set (AuthService_sessions x exclude_internal st)"
    if "map_of (sessions st) a = Some s" "is_internal_session st s" for x a s
  proof
    assume "a \<in> entry_id ` set (AuthService_sessions x exclude_internal st)"
    then obtain e where e: "e \<in> set (AuthService_sessions x exclude_internal st)" "entry_id e = a"
      by auto
    from listing_entry [OF e(1)] e(2) obtain s' where
      s': "(a, s') \<in> set (sessions st)" "entry_internal e = is_internal_session st s'"
        "exclude_internal e"
      by auto
    from s'(1) sessions_wf_distinct [OF wf] have "map_of (sessions st) a = Some s'" by simp
    with that(1) have "s' = s" by simp
    with s'(2,3) that(2) show False by (simp add: exclude_internal_def)
  qed
  show ?thesis
  proof (intro conjI allI impI)
    fix a s
    assume "map_of (sessions st) a = Some s"
    then show "is_internal_session st s =
         (origin (apps st a) = UnixSocketOrigin 0 \<or>
          cred_heap st (credentials s) = RootTcpSocketSessionManagerCredentials \<or>
          cred_heap st (credentials s) = TrueNasNodeSessionManagerCredentials)"
      by (rule is_internal_session_iff [OF wf])
  next
    fix x st'
    assume "step x st = Inr st'"
    then show "events st' = events st \<or>
       (\<exists>a s. events st' = events st @ [(''auth.sessions'', ADDED, a)] \<and>
              map_of (sessions st') a = Some s \<and> \<not> is_internal_session st' s) \<or>
       (\<exists>a s. events st' = events st @ [(''auth.sessions'', REMOVED, a)] \<and>
              map_of (sessions st) a = Some s \<and> \<not> is_internal_session st s)"
      by (rule step_events [OF wf])
  next
    fix x a s
    assume "map_of (sessions st) a = Some s \<and> is_internal_session st s"
    then show "a \<notin> entry_id ` set (AuthService_sessions x exclude_internal st)"
      using listed by blast
  qed
qed

text \<open>
  In \<open>state_sess\<close> the sessions of \<open>root\<close> and \<open>local\<close> are internal and that of \<open>conn1\<close>
  is not: only the login of \<open>conn1\<close> sent an event, only its logout sends one, and the
  filtered listing has neither \<open>root\<close> nor \<open>local\<close>.
\<close>

theorem internal_sessions_silent_witness:
  "initial state_base \<and>
   run [Login 1 ''conn1'' 0, Login 2 ''root'' 0, Login 3 ''local'' 3] state_base = Inr state_sess \<and>
   is_internal_session state_sess \<lparr>credentials = 0, app = ''root'', created_at = 2\<rparr> \<and>
   is_internal_session state_sess \<lparr>credentials = 3, app = ''local'', created_at = 3\<rparr> \<and>
   \<not> is_internal_session state_sess \<lparr>credentials = 0, app = ''conn1'', created_at = 1\<rparr> \<and>
   events state_sess = [(''auth.sessions'', ADDED, ''conn1'')] \<and>
   events (SessionManager_logout ''root'' state_sess) = events state_sess \<and>
   events (SessionManager_logout ''local'' state_sess) = events state_sess \<and>
   events (SessionManager_logout ''conn1'' state_sess) =
     events state_sess @ [(''auth.sessions'', REMOVED, ''conn1'')] \<and>
   ''root'' \<notin> entry_id ` set (AuthService_sessions ''conn1'' exclude_internal state_sess) \<and>
   ''local'' \<notin> entry_id ` set (AuthService_sessions ''conn1'' exclude_internal state_sess)"
proof -
  note silent = internal_sessions_silent [OF initial_state_base run_state_sess]
  note classified = silent [THEN conjunct1, rule_format]
  note unlisted = silent [THEN conjunct2, THEN conjunct2, rule_format, OF conjI]
  have root: "map_of (sessions state_sess) ''root'' =
      Some \<lparr>credentials = 0, app = ''root'', created_at = 2\<rparr>"
    and loc: "map_of (sessions state_sess) ''local'' =
      Some \<lparr>credentials = 3, app = ''local'', created_at = 3\<rparr>"
    and conn1: "map_of (sessions state_sess) ''conn1'' =
      Some \<lparr>credentials = 0, app = ''conn1'', created_at = 1\<rparr>"
    by (simp_all add: state_sess_simps)
  have i_root: "is_internal_session state_sess \<lparr>credentials = 0, app = ''root'', created_at = 2\<rparr>"
    unfolding classified [OF root] by (simp add: state_sess_simps state_base_simps)
  have i_loc: "is_internal_session state_sess \<lparr>credentials = 3, app = ''local'', created_at = 3\<rparr>"
    unfolding classified [OF loc] by (simp add: state_sess_simps state_base_simps)
  have i_conn1: "\<not> is_internal_session state_sess \<lparr>credentials = 0, app = ''conn1'', created_at = 1\<rparr>"
    unfolding classified [OF conn1] by (simp add: state_sess_simps state_base_simps user0_def)
  have l_root: "''root'' \<notin> entry_id ` set (AuthService_sessions ''conn1'' exclude_internal state_sess)"
    by (rule unlisted [OF root i_root])
  have l_loc: "''local'' \<notin> entry_id ` set (AuthService_sessions ''conn1'' exclude_internal state_sess)"
    by (rule unlisted [OF loc i_loc])
  have ev: "events state_sess = [(''auth.sessions'', ADDED, ''conn1'')]"
    by (simp add: state_sess_simps)
  have out_root: "events (SessionManager_logout ''root'' state_sess) = events state_sess"
    by (simp add: logout_events root i_root)
  have out_loc: "events (SessionManager_logout ''local'' state_sess) = events state_sess"
    by (simp add: logout_events loc i_loc)
  have out_conn1: "events (SessionManager_logout ''conn1'' state_sess) =
     events state_sess @ [(''auth.sessions'', REMOVED, ''conn1'')]"
    by (simp add: logout_events conn1 i_conn1)
  from initial_state_base run_state_sess i_root i_loc i_conn1 ev out_root out_loc out_conn1
    l_root l_loc
  show ?thesis by blast
qed

subsection \<open>Password login\<close>

lemma login_denied:
  assumes "authenticate mw uname password = None \<or>
           (twofactor_enabled mw \<and> \<not> twofactor_verify mw otp_token)"
  shows "AuthService_login mw now a uname password otp_token st =
     Inr (False, st\<lparr>calls := calls st @ calls_of_login mw uname password otp_token\<rparr>)"
  using assms
  by (auto simp: AuthService_login_def Let_def middleware_call_def calls_of_login_def
      split: option.splits)

lemma login_granted:
  assumes "authenticate mw uname password = Some u"
    "twofactor_enabled mw \<longrightarrow> twofactor_verify mw otp_token"
  shows "AuthService_login mw now a uname password otp_token st =
     (case SessionManager_login now a (next_cred_ref st)
             (st\<lparr>calls := calls st @ calls_of_login mw uname password otp_token,
                 cred_heap := (cred_heap st)(next_cred_ref st :=
                    LoginPasswordSessionManagerCredentials u (privilege_allowlist u)),
                 next_cred_ref := Suc (next_cred_ref st)\<rparr>) of
        Inl e \<Rightarrow> Inl e
      | Inr st' \<Rightarrow> Inr (True, st'))"
  using assms
  by (auto simp: AuthService_login_def Let_def middleware_call_def calls_of_login_def
      new_credentials_def split: option.splits)


lemma login_result:
  assumes "SessionManager_login now a c st = Inr st'"
  shows "authenticated (apps st' a) \<and> authenticated_credentials (apps st' a) = Some c \<and>
     (\<exists>s'. map_of (sessions st') a = Some s' \<and> credentials s' = c) \<and>
     cred_heap st' = cred_heap st"
proof (cases "authenticated (apps st a)")
  case True
  with assms obtain s where s: "map_of (sessions st) a = Some s"
    by (auto simp: SessionManager_login_def split: option.splits)
  from assms login_again [OF True s, of now c] True show ?thesis
    by (auto simp: update_conv')
next
  case False
  from login_fresh [OF False, of now c] assms show ?thesis
    by (auto simp: update_conv')
qed

lemma login_returns:
  assumes "sessions_wf st"
  shows "\<exists>st'. SessionManager_login now a c st = Inr st'"
proof (cases "authenticated (apps st a)")
  case True
  with sessions_wf_authenticated [OF assms, of a]
  obtain s where "map_of (sessions st) a = Some s" by auto
  from login_again [OF True this] show ?thesis by blast
next
  case False
  from login_fresh [OF False] show ?thesis by blast
qed

lemma sessions_wf_cong:
  "sessions st' = sessions st \<Longrightarrow> apps st' = apps st \<Longrightarrow> sessions_wf st' = sessions_wf st"
  by (simp add: sessions_wf_def)

text \<open>
  C6. With two-factor authentication enabled, \<^verbatim>\<open>login\<close> returns \<^verbatim>\<open>False\<close> whenever the
  verification of the one-time password fails, whatever the account store answered, and
  leaves sessions, connections and events as they were. The verification is called also
  when the account store returned no user, and after every login that returns, the calls
  made are \<^verbatim>\<open>auth.authenticate\<close>, \<^verbatim>\<open>auth.twofactor.config\<close> and \<^verbatim>\<open>auth.twofactor.verify\<close>.
  \<^verbatim>\<open>login\<close> returns \<^verbatim>\<open>True\<close> only if the account store returned a user and, two-factor
  authentication being enabled, the verification passed; then
  \<^verbatim>\<open>SessionManager.login\<close> has installed a new password-login credentials object of that
  user on the connection. In a registry that satisfies its invariant it does return
  \<^verbatim>\<open>True\<close> under these conditions.
\<close>

theorem login_two_factor:
  "(twofactor_enabled mw \<and> \<not> twofactor_verify mw otp_token \<longrightarrow>
      (\<exists>st'. AuthService_login mw now a uname password otp_token st = Inr (False, st') \<and>
         sessions st' = sessions st \<and> apps st' = apps st \<and> events st' = events st)) \<and>
   (twofactor_enabled mw \<and> authenticate mw uname password = None \<longrightarrow>
      (\<exists>st'. AuthService_login mw now a uname password otp_token st = Inr (False, st') \<and>
         auth_twofactor_verify otp_token \<in> set (calls st'))) \<and>
   (twofactor_enabled mw \<longrightarrow>
      (\<forall>r st'. AuthService_login mw now a uname password otp_token st = Inr (r, st') \<longrightarrow>
         calls st' = calls st @ [auth_authenticate uname password, auth_twofactor_config,
                                auth_twofactor_verify otp_token])) \<and>
   (\<forall>st'. AuthService_login mw now a uname password otp_token st = Inr (True, st') \<longrightarrow>
      (\<exists>u. authenticate mw uname password = Some u \<and>
           (twofactor_enabled mw \<longrightarrow> twofactor_verify mw otp_token) \<and>
           cred_heap st' (next_cred_ref st) =
             LoginPasswordSessionManagerCredentials u (privilege_allowlist u) \<and>
           authenticated (apps st' a) \<and>
           authenticated_credentials (apps st' a) = Some (next_cred_ref st) \<and>
           (\<exists>s. map_of (sessions st') a = Some s \<and> credentials s = next_cred_ref st))) \<and>
   (sessions_wf st \<and> authenticate mw uname password \<noteq> None \<and>
    (twofactor_enabled mw \<longrightarrow> twofactor_verify mw otp_token) \<longrightarrow>
      (\<exists>st'. AuthService_login mw now a uname password otp_token st = Inr (True, st')))"
proof (intro conjI impI allI)
  assume "twofactor_enabled mw \<and> \<not> twofactor_verify mw otp_token"
  then have "AuthService_login mw now a uname password otp_token st =
     Inr (False, st\<lparr>calls := calls st @ calls_of_login mw uname password otp_token\<rparr>)"
    by (intro login_denied) simp
  then show "\<exists>st'. AuthService_login mw now a uname password otp_token st = Inr (False, st') \<and>
         sessions st' = sessions st \<and> apps st' = apps st \<and> events st' = events st"
    by simp
next
  assume asm: "twofactor_enabled mw \<and> authenticate mw uname password = None"
  then have "AuthService_login mw now a uname password otp_token st =
     Inr (False, st\<lparr>calls := calls st @ calls_of_login mw uname password otp_token\<rparr>)"
    by (intro login_denied) simp
  with asm show "\<exists>st'. AuthService_login mw now a uname password otp_token st = Inr (False, st') \<and>
         auth_twofactor_verify otp_token \<in> set (calls st')"
    by (simp add: calls_of_login_def)
next
  fix r st'
  assume enabled: "twofactor_enabled mw"
    and login: "AuthService_login mw now a uname password otp_token st = Inr (r, st')"
  show "calls st' = calls st @ [auth_authenticate uname password, auth_twofactor_config,
                                auth_twofactor_verify otp_token]"
  proof (cases "authenticate mw uname password = None \<or> \<not> twofactor_verify mw otp_token")
    case True
    with enabled have "AuthService_login mw now a uname password otp_token st =
       Inr (False, st\<lparr>calls := calls st @ calls_of_login mw uname password otp_token\<rparr>)"
      by (intro login_denied) auto
    with login enabled show ?thesis by (auto simp: calls_of_login_def)
  next
    case False
    then obtain u where u: "authenticate mw uname password = Some u"
      and ok: "twofactor_enabled mw \<longrightarrow> twofactor_verify mw otp_token" by auto
    let ?st3 = "st\<lparr>calls := calls st @ calls_of_login mw uname password otp_token,
                 cred_heap := (cred_heap st)(next_cred_ref st :=
                    LoginPasswordSessionManagerCredentials u (privilege_allowlist u)),
                 next_cred_ref := Suc (next_cred_ref st)\<rparr>"
    from login login_granted [OF u ok, of now a st]
    have sm: "SessionManager_login now a (next_cred_ref st) ?st3 = Inr st'"
      by (auto split: sum.splits)
    have "calls st' = calls ?st3"
    proof (cases "authenticated (apps ?st3 a)")
      case True
      with sm obtain s where s: "map_of (sessions ?st3) a = Some s"
        by (auto simp: SessionManager_login_def split: option.splits)
      from sm login_again [OF True s, of now "next_cred_ref st"] show ?thesis by auto
    next
      case False
      with sm show ?thesis
        by (auto simp: SessionManager_login_def Let_def send_event_def split: if_splits)
    qed
    with enabled show ?thesis by (simp add: calls_of_login_def)
  qed
next
  fix st'
  assume login: "AuthService_login mw now a uname password otp_token st = Inr (True, st')"
  have granted: "\<not> (authenticate mw uname password = None \<or>
           (twofactor_enabled mw \<and> \<not> twofactor_verify mw otp_token))"
  proof
    assume "authenticate mw uname password = None \<or>
           (twofactor_enabled mw \<and> \<not> twofactor_verify mw otp_token)"
    from login_denied [OF this, of now a st] login show False by simp
  qed
  then obtain u where u: "authenticate mw uname password = Some u"
    and ok: "twofactor_enabled mw \<longrightarrow> twofactor_verify mw otp_token" by auto
  let ?st3 = "st\<lparr>calls := calls st @ calls_of_login mw uname password otp_token,
                 cred_heap := (cred_heap st)(next_cred_ref st :=
                    LoginPasswordSessionManagerCredentials u (privilege_allowlist u)),
                 next_cred_ref := Suc (next_cred_ref st)\<rparr>"
  from login login_granted [OF u ok, of now a st]
  have sm: "SessionManager_login now a (next_cred_ref st) ?st3 = Inr st'"
    by (auto split: sum.splits)
  from login_result [OF sm] u ok
  show "\<exists>u. authenticate mw uname password = Some u \<and>
           (twofactor_enabled mw \<longrightarrow> twofactor_verify mw otp_token) \<and>
           cred_heap st' (next_cred_ref st) =
             LoginPasswordSessionManagerCredentials u (privilege_allowlist u) \<and>
           authenticated (apps st' a) \<and>
           authenticated_credentials (apps st' a) = Some (next_cred_ref st) \<and>
           (\<exists>s. map_of (sessions st') a = Some s \<and> credentials s = next_cred_ref st)"
    by auto
next
  assume asm: "sessions_wf st \<and> authenticate mw uname password \<noteq> None \<and>
    (twofactor_enabled mw \<longrightarrow> twofactor_verify mw otp_token)"
  then obtain u where u: "authenticate mw uname password = Some u"
    and ok: "twofactor_enabled mw \<longrightarrow> twofactor_verify mw otp_token" by auto
  let ?st3 = "st\<lparr>calls := calls st @ calls_of_login mw uname password otp_token,
                 cred_heap := (cred_heap st)(next_cred_ref st :=
                    LoginPasswordSessionManagerCredentials u (privilege_allowlist u)),
                 next_cred_ref := Suc (next_cred_ref st)\<rparr>"
  have "sessions_wf ?st3"
    using asm by (simp add: sessions_wf_cong [of ?st3 st])
  from login_returns [OF this, of now a "next_cred_ref st"]
  obtain st' where "SessionManager_login now a (next_cred_ref st) ?st3 = Inr st'" ..
  with login_granted [OF u ok, of now a st]
  have "AuthService_login mw now a uname password otp_token st = Inr (True, st')" by simp
  then show "\<exists>st'. AuthService_login mw now a uname password otp_token st = Inr (True, st')" ..
qed

lemma mw0_simps:
  "twofactor_enabled mw0"
  "authenticate mw0 ''admin'' ''secret'' = Some user0"
  "authenticate mw0 ''admin'' ''wrong'' = None"
  "\<not> twofactor_verify mw0 (Some ''000000'')"
  "twofactor_verify mw0 (Some ''123456'')"
  by (simp_all add: mw0_def)

text \<open>
  With the collaborators \<open>mw0\<close>: the right password with a wrong code is refused after the
  three calls, a wrong password with the right code is refused after the code was
  verified, and the right password with the right code logs in.
\<close>

theorem login_two_factor_witness:
  "twofactor_enabled mw0 \<and> authenticate mw0 ''admin'' ''secret'' = Some user0 \<and>
   \<not> twofactor_verify mw0 (Some ''000000'') \<and>
   (\<exists>st'. AuthService_login mw0 1 ''conn1'' ''admin'' ''secret'' (Some ''000000'') state_base =
            Inr (False, st') \<and>
          sessions st' = [] \<and>
          calls st' = [auth_authenticate ''admin'' ''secret'', auth_twofactor_config,
                       auth_twofactor_verify (Some ''000000'')]) \<and>
   (\<exists>st'. AuthService_login mw0 1 ''conn1'' ''admin'' ''wrong'' (Some ''123456'') state_base =
            Inr (False, st') \<and>
          auth_twofactor_verify (Some ''123456'') \<in> set (calls st')) \<and>
   (\<exists>st'. AuthService_login mw0 1 ''conn1'' ''admin'' ''secret'' (Some ''123456'') state_base =
            Inr (True, st'))"
proof -
  note wrong_otp = login_two_factor [where mw = mw0 and otp_token = "Some ''000000''" and now = 1
      and a = "''conn1''" and uname = "''admin''" and password = "''secret''" and st = state_base]
  note wrong_password = login_two_factor [where mw = mw0 and otp_token = "Some ''123456''"
      and now = 1 and a = "''conn1''" and uname = "''admin''" and password = "''wrong''"
      and st = state_base]
  note right = login_two_factor [where mw = mw0 and otp_token = "Some ''123456''" and now = 1
      and a = "''conn1''" and uname = "''admin''" and password = "''secret''" and st = state_base]
  from wrong_otp [THEN conjunct1, rule_format, OF conjI, OF mw0_simps(1) mw0_simps(4)]
  obtain st1 where st1:
    "AuthService_login mw0 1 ''conn1'' ''admin'' ''secret'' (Some ''000000'') state_base =
       Inr (False, st1)"
    "sessions st1 = sessions state_base"
    by blast
  from wrong_otp [THEN conjunct2, THEN conjunct2, THEN conjunct1, rule_format,
      OF mw0_simps(1) st1(1)]
  have "calls st1 = [auth_authenticate ''admin'' ''secret'', auth_twofactor_config,
                       auth_twofactor_verify (Some ''000000'')]"
    by (simp add: state_base_def state_chain_def state0_def)
  with st1 have first: "\<exists>st'. AuthService_login mw0 1 ''conn1'' ''admin'' ''secret'' (Some ''000000'') state_base =
            Inr (False, st') \<and>
          sessions st' = [] \<and>
          calls st' = [auth_authenticate ''admin'' ''secret'', auth_twofactor_config,
                       auth_twofactor_verify (Some ''000000'')]"
    by (simp add: state_base_simps)
  note second = wrong_password [THEN conjunct2, THEN conjunct1, rule_format, OF conjI,
      OF mw0_simps(1) mw0_simps(3)]
  have "sessions_wf state_base"
    by (rule sessions_wf_initial [OF initial_state_base])
  then have "sessions_wf state_base \<and> authenticate mw0 ''admin'' ''secret'' \<noteq> None \<and>
    (twofactor_enabled mw0 \<longrightarrow> twofactor_verify mw0 (Some ''123456''))"
    by (simp add: mw0_simps)
  note third = right [THEN conjunct2, THEN conjunct2, THEN conjunct2, THEN conjunct2,
      rule_format, OF this]
  from mw0_simps(1,2,4) first second third show ?thesis by (intro conjI)
qed

subsection \<open>Token login\<close>

lemma login_with_token_attributes:
  assumes "TokenManager_get now tok (origin (apps st a)) st = Inr (Some r, st1)"
    "attributes (token_heap st1 r) \<noteq> []"
  shows "AuthService_login_with_token now a tok st = Inr (PyNone, st1)"
  using assms by (simp add: AuthService_login_with_token_def)

lemma state_attr_simps:
  "tokens state_attr ''tok'' = Some 2"
  "token_heap state_attr 2 = Token_init 0 ''tok'' 600 [(''filename'', ''dump.txz'')] None (Some 0)"
  by (simp_all add: state_attr_def TokenManager_create_def Let_def state_base_def state_chain_def
      state0_def)

text \<open>
  C7. For the token of \<open>state_attr\<close>, which is stored, valid, not bound to an origin and
  carries an attribute, \<^verbatim>\<open>login_with_token\<close> returns \<^verbatim>\<open>None\<close>, which is not the boolean
  \<^verbatim>\<open>False\<close> that its declared result \<^verbatim>\<open>Bool('successful_login')\<close> and the branch for an
  unknown token give; the state is unchanged, so \<^verbatim>\<open>SessionManager.login\<close> was not called.
\<close>

theorem login_with_token_returns_none:
  "AuthService_login_with_token 1 ''conn1'' ''tok'' state_attr = Inr (PyNone, state_attr)"
proof -
  have "TokenManager_get 1 ''tok'' (origin (apps state_attr ''conn1'')) state_attr =
      Inr (Some 2, state_attr)"
    by (simp add: TokenManager_get_def state_attr_simps Token_init_def Token_is_valid_def)
  then show ?thesis
    by (rule login_with_token_attributes) (simp add: state_attr_simps Token_init_def)
qed

subsection \<open>Terminating a session\<close>

lemma terminate_session_result:
  "AuthService_terminate_session sid st =
     (case map_of (sessions st) sid of
        None \<Rightarrow> (PyBool False, st)
      | Some s \<Rightarrow> (PyNone, st\<lparr>apps := (apps st)(app s := (apps st (app s))\<lparr>response_closed := True\<rparr>)\<rparr>))"
  by (simp add: AuthService_terminate_session_def)

text \<open>
  C8. For the session of \<open>conn1\<close> in \<open>state_sess\<close>, \<^verbatim>\<open>terminate_session\<close> closes the
  transport and returns \<^verbatim>\<open>None\<close>, which is not the boolean \<^verbatim>\<open>True\<close> that its declared
  result (true if the session was terminated successfully) promises; for an id without a
  session it returns \<^verbatim>\<open>False\<close>.
\<close>

theorem terminate_session_returns_none:
  "fst (AuthService_terminate_session ''conn1'' state_sess) = PyNone \<and>
   response_closed (apps (snd (AuthService_terminate_session ''conn1'' state_sess)) ''conn1'') \<and>
   fst (AuthService_terminate_session ''nobody'' state_sess) = PyBool False"
  by (simp add: terminate_session_result state_sess_simps)

end
